(* ===== verification/Prelude.thy ===== *)
theory Prelude
  imports Main "HOL-Library.AList"
begin

text \<open>
  What every component of the model shares.

  \<^item> Go maps are association lists with distinct keys (\<open>gomap\<close>): a lookup is
    \<open>map_of\<close>, a store \<open>m[k] = v\<close> is \<open>AList.update\<close>, a \<open>delete\<close> is
    \<open>AList.delete\<close>. A \<open>range\<close> loop visits the entries in list order; Go leaves that
    order open, and a theorem over all states is a theorem over all orders.
  \<^item> A Go call either returns (\<open>Done\<close>) or takes the process down or blocks it for ever
    (\<open>Crash\<close>): a nil dereference, an index out of range, a lock the calling goroutine
    already holds. \<open>Diverge\<close> says that the fuel of a recursive model ran out, so that
    nothing is claimed about a call that may not return.
  \<^item> Two interfaces: \<open>keyed_store\<close> (what a lookup returns after a store or a delete) and
    \<open>transition_system\<close> (an invariant of a step relation holds in every reachable state).
\<close>

named_theorems go_simps \<open>unfolding equations of the Go library functions on concrete strings\<close>
named_theorems frame_simps \<open>what an operation leaves unchanged\<close>
named_theorems run_simps \<open>unfolding equations used to run a model on a concrete input\<close>

section \<open>Maps\<close>

type_synonym ('k, 'v) gomap = "('k \<times> 'v) list"

abbreviation gm_keys :: "('k, 'v) gomap \<Rightarrow> 'k list" where
  "gm_keys m \<equiv> List.map fst m"

abbreviation gm_ok :: "('k, 'v) gomap \<Rightarrow> bool" where
  "gm_ok m \<equiv> distinct (gm_keys m)"

text \<open>The interface the clients of a keyed store use.\<close>

locale keyed_store =
  fixes get :: "'m \<Rightarrow> 'k \<Rightarrow> 'v option"
    and put :: "'k \<Rightarrow> 'v \<Rightarrow> 'm \<Rightarrow> 'm"
    and del :: "'k \<Rightarrow> 'm \<Rightarrow> 'm"
    and ok :: "'m \<Rightarrow> bool"
  assumes get_put: "get (put k v m) k' = (if k' = k then Some v else get m k')"
    and get_del: "ok m \<Longrightarrow> get (del k m) k' = (if k' = k then None else get m k')"
    and ok_put: "ok m \<Longrightarrow> ok (put k v m)"
    and ok_del: "ok m \<Longrightarrow> ok (del k m)"
begin

lemma get_put_same: "get (put k v m) k = Some v"
  by (simp add: get_put)

lemma get_put_other: "k' \<noteq> k \<Longrightarrow> get (put k v m) k' = get m k'"
  by (simp add: get_put)

lemma del_put: "ok m \<Longrightarrow> get (del k (put k v m)) k' = get (del k m) k'"
  by (simp add: get_del ok_put get_put)

text \<open>Storing one value under every key of a list, as a loop over it does.\<close>

lemma get_fold_put:
  "get (fold (\<lambda>k. put k v) ks m) k' = (if k' \<in> set ks then Some v else get m k')"
  by (induction ks arbitrary: m) (auto simp: get_put)

lemma ok_fold_put: "ok m \<Longrightarrow> ok (fold (\<lambda>k. put k v) ks m)"
  by (induction ks arbitrary: m) (auto intro: ok_put)

end

interpretation gm: keyed_store map_of AList.update AList.delete gm_ok
proof unfold_locales
  fix k v m k' show "map_of (AList.update k v m) k' = (if k' = k then Some v else map_of m k')"
    by (simp add: update_conv')
next
  fix m :: "('a, 'b) gomap" and k k'
  show "map_of (AList.delete k m) k' = (if k' = k then None else map_of m k')"
    by (simp add: delete_conv')
qed (auto simp: distinct_update distinct_delete)

lemma gm_keys_update:
  "set (gm_keys (AList.update k v m)) = insert k (set (gm_keys m))"
  by (auto simp: update_conv' simp flip: dom_map_of_conv_image_fst)

lemma gm_mem_get: "gm_ok m \<Longrightarrow> (k, v) \<in> set m \<longleftrightarrow> map_of m k = Some v"
  by auto

lemma map_of_None_keys: "map_of m k = None \<longleftrightarrow> k \<notin> set (gm_keys m)"
  by (simp add: map_of_eq_None_iff)

section \<open>How a Go call ends\<close>

datatype crash =
    NilDeref          \<comment> \<open>panic: invalid memory address or nil pointer dereference\<close>
  | IndexRange        \<comment> \<open>panic: index out of range\<close>
  | SelfDeadlock      \<comment> \<open>a lock that the goroutine already holds: it never returns\<close>
  | NeverReaped       \<comment> \<open>\<open>procwait.Run\<close> waits for a process whose end was missed: it never returns\<close>

datatype 'a outcome = Done 'a | Crash crash | Diverge

fun andthen :: "'a outcome \<Rightarrow> ('a \<Rightarrow> 'b outcome) \<Rightarrow> 'b outcome" where
  "andthen (Done x) f = f x"
| "andthen (Crash c) f = Crash c"
| "andthen Diverge f = Diverge"

lemma andthen_Done_iff: "andthen m f = Done y \<longleftrightarrow> (\<exists>x. m = Done x \<and> f x = Done y)"
  by (cases m) auto

lemma andthen_Diverge_iff: "andthen m f = Diverge \<longleftrightarrow> m = Diverge \<or> (\<exists>x. m = Done x \<and> f x = Diverge)"
  by (cases m) auto

lemma andthen_Crash_iff:
  "andthen m f = Crash c \<longleftrightarrow> m = Crash c \<or> (\<exists>x. m = Done x \<and> f x = Crash c)"
  by (cases m) auto

lemma andthen_cong [fundef_cong]:
  "m = m' \<Longrightarrow> (\<And>x. m' = Done x \<Longrightarrow> f x = g x) \<Longrightarrow> andthen m f = andthen m' g"
  by (cases m') auto

lemmas andthen_iffs = andthen_Done_iff andthen_Crash_iff andthen_Diverge_iff

text \<open>A loop whose body may crash.\<close>

fun fold_outcome :: "('a \<Rightarrow> 's \<Rightarrow> 's outcome) \<Rightarrow> 'a list \<Rightarrow> 's \<Rightarrow> 's outcome" where
  "fold_outcome f [] s = Done s"
| "fold_outcome f (x # xs) s = andthen (f x s) (fold_outcome f xs)"

lemma fold_outcome_append:
  "fold_outcome f (xs @ ys) s = andthen (fold_outcome f xs s) (fold_outcome f ys)"
  by (induction xs arbitrary: s) (simp, case_tac "f a s", auto)

lemma fold_outcome_inv:
  assumes "\<And>x s s'. x \<in> set xs \<Longrightarrow> I s \<Longrightarrow> f x s = Done s' \<Longrightarrow> I s'"
  shows "I s \<Longrightarrow> fold_outcome f xs s = Done s' \<Longrightarrow> I s'"
  using assms by (induction xs arbitrary: s) (auto simp: andthen_Done_iff)

text \<open>A loop whose body neither crashes nor diverges under an invariant, and its effect on an
  abstraction of the state.\<close>

lemma fold_outcome_simulates:
  assumes "\<And>x s. x \<in> set xs \<Longrightarrow> I s \<Longrightarrow> \<exists>s'. f x s = Done s' \<and> I s' \<and> abs s' = g x (abs s)"
  shows "I s \<Longrightarrow> \<exists>s'. fold_outcome f xs s = Done s' \<and> I s' \<and> abs s' = fold g xs (abs s)"
  using assms
proof (induction xs arbitrary: s)
  case (Cons x xs)
  from Cons.prems obtain s1 where s1: "f x s = Done s1" "I s1" "abs s1 = g x (abs s)"
    by (meson list.set_intros(1))
  with Cons show ?case by fastforce
qed auto

section \<open>Frames\<close>

text \<open>A relation between the states before and after an operation that says what stays: it is
  reflexive and transitive, so a loop has it if its body does.\<close>

locale frame =
  fixes rel :: "'s \<Rightarrow> 's \<Rightarrow> bool"
  assumes frame_refl: "rel s s"
    and frame_trans: "rel s t \<Longrightarrow> rel t u \<Longrightarrow> rel s u"
begin

lemma fold_frame: "(\<And>e s. e \<in> set es \<Longrightarrow> rel s (f e s)) \<Longrightarrow> rel s (fold f es s)"
proof (induction es arbitrary: s)
  case (Cons e es)
  have "rel (f e s) (fold f es (f e s))" by (rule Cons.IH) (simp add: Cons.prems)
  then show ?case using frame_trans [OF Cons.prems [of e s]] by simp
qed (simp add: frame_refl)

lemma outcome_frame:
  assumes "\<And>e s s'. e \<in> set es \<Longrightarrow> f e s = Done s' \<Longrightarrow> rel s s'"
  shows "fold_outcome f es s = Done s' \<Longrightarrow> rel s s'"
  using assms
proof (induction es arbitrary: s)
  case (Cons e es)
  from Cons.prems(1) obtain t where t: "f e s = Done t" "fold_outcome f es t = Done s'"
    by (auto simp: andthen_Done_iff)
  have "rel t s'"
    by (rule Cons.IH [OF t(2)], rule Cons.prems(2)) simp_all
  then show ?case using frame_trans [OF Cons.prems(2) [OF _ t(1)]] by simp
qed (simp add: frame_refl)

text \<open>Every element of the list is processed in a state that the frame reaches.\<close>

lemma outcome_frame_step:
  assumes "\<And>e s s'. e \<in> set es \<Longrightarrow> f e s = Done s' \<Longrightarrow> rel s s'"
  shows "fold_outcome f es s = Done s' \<Longrightarrow> x \<in> set es \<Longrightarrow> \<exists>t t'. rel s t \<and> f x t = Done t'"
  using assms
proof (induction es arbitrary: s)
  case (Cons e es)
  from Cons.prems(1) obtain t where t: "f e s = Done t" "fold_outcome f es t = Done s'"
    by (auto simp: andthen_Done_iff)
  show ?case
  proof (cases "x = e")
    case True
    then show ?thesis using t(1) frame_refl by blast
  next
    case False
    then have "x \<in> set es" using Cons.prems(2) by simp
    then have "\<exists>u u'. rel t u \<and> f x u = Done u'"
      by (rule Cons.IH [OF t(2)]) (rule Cons.prems(3); simp)
    then show ?thesis using frame_trans [OF Cons.prems(3) [OF _ t(1)]] by auto
  qed
qed simp

end

section \<open>Step relations\<close>

locale transition_system =
  fixes start_state :: "'s \<Rightarrow> bool"
    and step :: "'s \<Rightarrow> 's \<Rightarrow> bool"
    and inv :: "'s \<Rightarrow> bool"
  assumes inv_start: "start_state s \<Longrightarrow> inv s"
    and inv_step: "step s t \<Longrightarrow> inv s \<Longrightarrow> inv t"
begin

lemma inv_steps: "step\<^sup>*\<^sup>* s t \<Longrightarrow> inv s \<Longrightarrow> inv t"
  by (induction rule: rtranclp_induct) (auto intro: inv_step)

lemma inv_reachable: "start_state s \<Longrightarrow> step\<^sup>*\<^sup>* s t \<Longrightarrow> inv t"
  using inv_start inv_steps by blast

end

section \<open>Lists\<close>

lemma takeWhile_append_stop:
  "(\<forall>x \<in> set xs. P x) \<Longrightarrow> \<not> P y \<Longrightarrow> takeWhile P (xs @ y # ys) = xs"
  by (induction xs) auto

lemma dropWhile_append_stop:
  "(\<forall>x \<in> set xs. P x) \<Longrightarrow> \<not> P y \<Longrightarrow> dropWhile P (xs @ y # ys) = y # ys"
  by (induction xs) auto

lemma span_all:
  "(\<forall>x \<in> set xs. P x) \<Longrightarrow> (ys = [] \<or> \<not> P (hd ys)) \<Longrightarrow>
   takeWhile P (xs @ ys) = xs \<and> dropWhile P (xs @ ys) = ys"
  by (cases ys) (auto simp: takeWhile_append_stop dropWhile_append_stop)

lemma takeWhile_cut: "\<not> P x \<Longrightarrow> takeWhile P (ys @ x # xs) = takeWhile P ys"
  by (induction ys) auto

end
