(* ===== verification/GoStrings.thy ===== *)
theory GoStrings
  imports Prelude "HOL-Library.Sublist"
begin

text \<open>
  The functions of Go's \<open>strings\<close> and \<open>strconv\<close> packages that the program uses. A Go string
  is a sequence of bytes, and so is a HOL \<open>string\<close>; every separator and cut set of the
  program is ASCII, so the byte-wise definitions agree with Go's rune-wise ones on them.
  \<open>ToUpper\<close> and \<open>ToLower\<close> results are only ever compared with ASCII constants: the model maps
  the ASCII letters and the two non-ASCII letters whose upper case is ASCII (the dotless i,
  C4 B1, and the long s, C5 BF), and leaves every other byte alone, which changes no comparison.
\<close>

section \<open>Prefixes, suffixes, trimming\<close>

definition has_prefix :: "string \<Rightarrow> string \<Rightarrow> bool" where
  "has_prefix s p = (take (length p) s = p)"

definition has_suffix :: "string \<Rightarrow> string \<Rightarrow> bool" where
  "has_suffix s p = (length p \<le> length s \<and> drop (length s - length p) s = p)"

definition trim_prefix :: "string \<Rightarrow> string \<Rightarrow> string" where
  "trim_prefix s p = (if has_prefix s p then drop (length p) s else s)"

definition trim_suffix :: "string \<Rightarrow> string \<Rightarrow> string" where
  "trim_suffix s p = (if has_suffix s p then take (length s - length p) s else s)"

definition trim_left :: "string \<Rightarrow> string \<Rightarrow> string" where
  "trim_left s cs = dropWhile (\<lambda>c. List.member cs c) s"

definition trim_right :: "string \<Rightarrow> string \<Rightarrow> string" where
  "trim_right s cs = rev (dropWhile (\<lambda>c. List.member cs c) (rev s))"

definition trim :: "string \<Rightarrow> string \<Rightarrow> string" where
  "trim s cs = trim_right (trim_left s cs) cs"

section \<open>Searching and replacing\<close>

fun str_contains :: "string \<Rightarrow> string \<Rightarrow> bool" where
  "str_contains [] sub = (sub = [])"
| "str_contains (c # s) sub = (has_prefix (c # s) sub \<or> str_contains s sub)"

text \<open>\<open>strings.ReplaceAll\<close> for a non-empty \<open>old\<close>, the only use the program makes of it.\<close>

function replace_all :: "string \<Rightarrow> string \<Rightarrow> string \<Rightarrow> string" where
  "replace_all [] old new = []"
| "replace_all (c # s) old new =
     (if old \<noteq> [] \<and> has_prefix (c # s) old
      then new @ replace_all (drop (length old) (c # s)) old new
      else c # replace_all s old new)"
  by pat_completeness auto
termination
proof (relation "measure (\<lambda>(s, old, new). length s)")
  fix c and s old :: string and new :: string
  assume "old \<noteq> [] \<and> has_prefix (c # s) old"
  then have "0 < length old" by simp
  then show "((drop (length old) (c # s), old, new), (c # s, old, new))
      \<in> measure (\<lambda>(s, old, new). length s)" by simp
qed auto

text \<open>\<open>strings.Split\<close> with a one-byte separator, and \<open>strings.Join\<close>.\<close>

fun split_at :: "char \<Rightarrow> string \<Rightarrow> string list" where
  "split_at sep [] = [[]]"
| "split_at sep (c # s) =
     (if c = sep then [] # split_at sep s
      else case split_at sep s of [] \<Rightarrow> [[c]] | p # ps \<Rightarrow> (c # p) # ps)"

fun join_with :: "string \<Rightarrow> string list \<Rightarrow> string" where
  "join_with sep [] = []"
| "join_with sep [x] = x"
| "join_with sep (x # y # ys) = x @ sep @ join_with sep (y # ys)"

section \<open>Case mapping\<close>

definition ascii_upper :: "char \<Rightarrow> char" where
  "ascii_upper c = (let n = of_char c :: nat in
     if 97 \<le> n \<and> n \<le> 122 then char_of (n - 32) else c)"

definition ascii_lower :: "char \<Rightarrow> char" where
  "ascii_lower c = (let n = of_char c :: nat in
     if 65 \<le> n \<and> n \<le> 90 then char_of (n + 32) else c)"

fun to_upper :: "string \<Rightarrow> string" where
  "to_upper [] = []"
| "to_upper [c] = [ascii_upper c]"
| "to_upper (c # d # s) =
     (if c = CHR 0xC4 \<and> d = CHR 0xB1 then CHR ''I'' # to_upper s
      else if c = CHR 0xC5 \<and> d = CHR 0xBF then CHR ''S'' # to_upper s
      else ascii_upper c # to_upper (d # s))"

definition to_lower :: "string \<Rightarrow> string" where
  "to_lower s = map ascii_lower s"

section \<open>Numbers\<close>

definition is_digit :: "char \<Rightarrow> bool" where
  "is_digit c = (let n = of_char c :: nat in 48 \<le> n \<and> n \<le> 57)"

definition digit_val :: "char \<Rightarrow> int" where
  "digit_val c = int (of_char c) - 48"

fun digits_val :: "int \<Rightarrow> string \<Rightarrow> int" where
  "digits_val acc [] = acc"
| "digits_val acc (c # s) = digits_val (10 * acc + digit_val c) s"

datatype num_error = ErrSyntax | ErrRange

text \<open>
  \<open>strconv.Atoi\<close> on a 64-bit platform: the value and the error. On a value out of range Go
  returns the nearest representable value together with \<open>ErrRange\<close>.
\<close>

definition max_int :: int where "max_int = 9223372036854775807"
definition min_int :: int where "min_int = -9223372036854775808"

definition atoi :: "string \<Rightarrow> int \<times> num_error option" where
  "atoi s =
     (let (neg, ds) = (case s of [] \<Rightarrow> (False, [])
                       | c # r \<Rightarrow> if c = CHR ''-'' then (True, r)
                                 else if c = CHR ''+'' then (False, r) else (False, s))
      in if ds = [] \<or> \<not> list_all is_digit ds then (0, Some ErrSyntax)
         else let v = (if neg then - digits_val 0 ds else digits_val 0 ds)
              in if v > max_int then (max_int, Some ErrRange)
                 else if v < min_int then (min_int, Some ErrRange)
                 else (v, None))"

text \<open>\<open>strconv.Itoa\<close>.\<close>

function dec_digits :: "int \<Rightarrow> string" where
  "dec_digits n = (if n < 10 then [char_of (nat (48 + n))]
                   else dec_digits (n div 10) @ [char_of (nat (48 + n mod 10))])"
  by pat_completeness auto
termination
  by (relation "measure nat") auto

declare dec_digits.simps [simp del]

definition itoa :: "int \<Rightarrow> string" where
  "itoa n = (if n < 0 then CHR ''-'' # dec_digits (- n) else dec_digits n)"

section \<open>Lemmas\<close>

lemma has_prefix_iff: "has_prefix s p \<longleftrightarrow> (\<exists>r. s = p @ r)"
  by (auto simp: has_prefix_def) (metis append_take_drop_id)

lemma has_suffix_iff: "has_suffix s p \<longleftrightarrow> (\<exists>r. s = r @ p)"
proof
  assume "has_suffix s p"
  then have "s = take (length s - length p) s @ p"
    by (metis append_take_drop_id has_suffix_def)
  then show "\<exists>r. s = r @ p" by blast
qed (auto simp: has_suffix_def)

lemma has_prefix_append [simp]: "has_prefix (p @ r) p"
  by (auto simp: has_prefix_iff)

lemma has_suffix_append [simp]: "has_suffix (r @ p) p"
  by (auto simp: has_suffix_iff)

lemma has_prefix_Nil [simp]: "has_prefix s []"
  by (simp add: has_prefix_def)

lemma has_prefix_Cons_Cons [simp]: "has_prefix (c # s) (d # p) \<longleftrightarrow> c = d \<and> has_prefix s p"
  by (auto simp: has_prefix_def)

lemma has_prefix_Nil_Cons [simp]: "\<not> has_prefix [] (d # p)"
  by (simp add: has_prefix_def)

lemma trim_suffix_append [simp]: "trim_suffix (r @ p) p = r"
  by (simp add: trim_suffix_def)

lemma trim_prefix_append [simp]: "trim_prefix (p @ r) p = r"
  by (simp add: trim_prefix_def)

lemma trim_left_id: "s = [] \<or> hd s \<notin> set cs \<Longrightarrow> trim_left s cs = s"
  by (cases s) (auto simp: trim_left_def)

lemma trim_right_id: "s = [] \<or> last s \<notin> set cs \<Longrightarrow> trim_right s cs = s"
  by (cases s rule: rev_cases) (auto simp: trim_right_def)

lemma trim_id: "s = [] \<or> (hd s \<notin> set cs \<and> last s \<notin> set cs) \<Longrightarrow> trim s cs = s"
  by (auto simp: trim_def trim_left_id trim_right_id)

lemma trim_hd: "trim s cs \<noteq> [] \<Longrightarrow> hd (trim s cs) \<notin> set cs"
proof -
  assume ne: "trim s cs \<noteq> []"
  let ?l = "trim_left s cs"
  obtain z where z: "?l = trim_right ?l cs @ z"
    unfolding trim_right_def
    by (metis (no_types) rev_append rev_rev_ident takeWhile_dropWhile_id)
  with ne have "hd ?l = hd (trim s cs)" by (metis hd_append2 trim_def)
  moreover have "?l \<noteq> []" using ne by (auto simp: trim_def trim_right_def)
  then have "hd ?l \<notin> set cs"
    unfolding trim_left_def by (metis List.member_iff hd_dropWhile)
  ultimately show ?thesis by simp
qed

lemma split_at_ne [simp]: "split_at c s \<noteq> []"
  by (induction s) (auto split: list.splits)

lemma split_at_none: "c \<notin> set s \<Longrightarrow> split_at c s = [s]"
  by (induction s) auto

lemma split_at_append: "c \<notin> set p \<Longrightarrow> split_at c (p @ c # s) = p # split_at c s"
  by (induction p) auto

lemma split_at_no_sep: "p \<in> set (split_at c s) \<Longrightarrow> c \<notin> set p"
  by (induction s arbitrary: p) (auto split: list.splits if_splits)

lemma join_split: "join_with [c] (split_at c s) = s"
proof (induction s)
  case (Cons d s)
  then show ?case
    by (cases "split_at c s" rule: list.exhaust; cases "tl (split_at c s)" rule: list.exhaust)
       (auto split: list.splits)
qed simp

lemma split_join:
  "ps \<noteq> [] \<Longrightarrow> \<forall>p \<in> set ps. c \<notin> set p \<Longrightarrow> split_at c (join_with [c] ps) = ps"
  by (induction "[c]" ps rule: join_with.induct) (auto simp: split_at_none split_at_append)

lemma digits_val_append: "digits_val a (xs @ ys) = digits_val (digits_val a xs) ys"
  by (induction xs arbitrary: a) auto

lemma digit_char:
  assumes "0 \<le> k" "k < 10"
  shows "digit_val (char_of (nat (48 + k))) = k" and "is_digit (char_of (nat (48 + k)))"
proof -
  have "(of_char (char_of (nat (48 + k)) :: char) :: nat) = nat (48 + k)"
    using assms by (simp add: of_char_of)
  then show "digit_val (char_of (nat (48 + k))) = k" and "is_digit (char_of (nat (48 + k)))"
    using assms by (auto simp: digit_val_def is_digit_def Let_def)
qed

lemma dec_digits_ok:
  "0 \<le> n \<Longrightarrow> digits_val 0 (dec_digits n) = n \<and> list_all is_digit (dec_digits n) \<and> dec_digits n \<noteq> []"
proof (induction n rule: dec_digits.induct)
  case (1 n)
  show ?case
  proof (cases "n < 10")
    case True
    with 1 show ?thesis by (subst (1 2 3) dec_digits.simps) (simp add: digit_char)
  next
    case False
    have m: "0 \<le> n mod 10" "n mod 10 < 10" by simp_all
    from False 1 show ?thesis
      by (subst (1 2 3) dec_digits.simps) (simp add: digits_val_append digit_char [OF m])
  qed
qed

lemma is_digit_sign: "is_digit c \<Longrightarrow> c \<noteq> CHR ''-'' \<and> c \<noteq> CHR ''+''"
  by (auto simp: is_digit_def Let_def)

lemma atoi_digits:
  assumes "ds \<noteq> []" "list_all is_digit ds"
  shows "atoi ds = (if digits_val 0 ds > max_int then (max_int, Some ErrRange)
                    else if digits_val 0 ds < min_int then (min_int, Some ErrRange)
                    else (digits_val 0 ds, None))"
  using assms by (cases ds) (auto simp: atoi_def Let_def dest: is_digit_sign)

text \<open>Printing and reading back an integer of the platform's \<open>int\<close> type.\<close>

lemma atoi_itoa:
  assumes "min_int \<le> n" "n \<le> max_int"
  shows "atoi (itoa n) = (n, None)"
proof (cases "n < 0")
  case True
  then have "digits_val 0 (dec_digits (- n)) = - n" "list_all is_digit (dec_digits (- n))"
    "dec_digits (- n) \<noteq> []" using dec_digits_ok [of "- n"] by auto
  with True assms show ?thesis by (simp add: atoi_def itoa_def Let_def)
next
  case False
  then have "digits_val 0 (dec_digits n) = n" "list_all is_digit (dec_digits n)"
    "dec_digits n \<noteq> []" using dec_digits_ok [of n] by auto
  with False assms show ?thesis by (simp add: itoa_def atoi_digits)
qed

end
