(* ===== verification/Durations.thy ===== *)
theory Durations
  imports GoStrings "HOL-Library.Word"
begin

text \<open>
  The duration parser of \<open>systemd/daemons/unit.go\<close>: \<open>parseSystemdDuration\<close>,
  \<open>leadingInt\<close>, \<open>leadingFraction\<close>, \<open>quote\<close> and the table \<open>unitMap\<close>. The \<open>uint64\<close> values of
  the code are \<open>64 word\<close>, so that every comparison and every sum is the machine's; the
  \<open>float64\<close> arithmetic of the fractional part is written out below as rounding to 53 bits,
  ties to even. Errors are values that hold the strings the code puts in its messages.
\<close>

type_synonym u64 = "64 word"

section \<open>Float64, as far as the fraction needs it\<close>

text \<open>
  A non-negative \<open>float64\<close> is \<open>FFin m e\<close>, the number \<open>m * 2 ^ e\<close>, or infinity.
  \<open>round_ratio n d\<close> is the \<open>float64\<close> nearest to \<open>n / d\<close>.
\<close>

datatype f64 = FFin int int | FInf

function bit_length :: "int \<Rightarrow> int" where
  "bit_length n = (if n \<le> 0 then 0 else 1 + bit_length (n div 2))"
  by pat_completeness auto
termination
  by (relation "measure nat") auto

declare bit_length.simps [simp del]

definition shift_up :: "int \<Rightarrow> int \<Rightarrow> int" where
  "shift_up n e = (if 0 \<le> e then n * 2 ^ nat e else n)"

definition round_ratio :: "int \<Rightarrow> int \<Rightarrow> f64" where
  "round_ratio n d =
     (if n \<le> 0 then FFin 0 0
      else let b = bit_length n - bit_length d;
               lg = (if shift_up d b \<le> shift_up n (- b) then b else b - 1);
               e = max (lg - 52) (- 1074);
               num = shift_up n (- e); den = shift_up d e;
               q = num div den; r = num mod den;
               m = (if 2 * r > den \<or> (2 * r = den \<and> odd q) then q + 1 else q)
           in if shift_up m e \<ge> 2 ^ 1024 then FInf else FFin m e)"

definition f64_of_u64 :: "u64 \<Rightarrow> f64" where
  "f64_of_u64 x = round_ratio (uint x) 1"

fun f64_mul :: "f64 \<Rightarrow> f64 \<Rightarrow> f64" where
  "f64_mul (FFin m e) (FFin m' e') =
     round_ratio (shift_up (m * m') (e + e')) (shift_up 1 (- (e + e')))"
| "f64_mul _ _ = FInf"

text \<open>The divisor is a power of ten, never zero, or infinity.\<close>

fun f64_div :: "f64 \<Rightarrow> f64 \<Rightarrow> f64" where
  "f64_div (FFin m e) (FFin m' e') =
     round_ratio (shift_up m (e - e')) (shift_up m' (e' - e))"
| "f64_div (FFin m e) FInf = FFin 0 0"
| "f64_div FInf _ = FInf"

text \<open>
  The conversion \<open>uint64(x)\<close> truncates; it is applied to values below the largest unit,
  which are finite.
\<close>

fun u64_of_f64 :: "f64 \<Rightarrow> u64" where
  "u64_of_f64 (FFin m e) = word_of_int (if 0 \<le> e then m * 2 ^ nat e else m div 2 ^ nat (- e))"
| "u64_of_f64 FInf = 0"

section \<open>Digits\<close>

definition two63 :: u64 where "two63 = 9223372036854775808"

fun leading_int_loop :: "u64 \<Rightarrow> string \<Rightarrow> (u64 \<times> string) option" where
  "leading_int_loop x [] = Some (x, [])"
| "leading_int_loop x (c # s) =
     (if \<not> is_digit c then Some (x, c # s)
      else if x > 922337203685477580 then None
      else let x' = x * 10 + of_char c - 48
           in if x' > two63 then None else leading_int_loop x' s)"

definition leading_int :: "string \<Rightarrow> (u64 \<times> string) option" where
  "leading_int s = leading_int_loop 0 s"

fun leading_fraction_loop :: "u64 \<Rightarrow> f64 \<Rightarrow> bool \<Rightarrow> string \<Rightarrow> u64 \<times> f64 \<times> string" where
  "leading_fraction_loop x scale overflow [] = (x, scale, [])"
| "leading_fraction_loop x scale overflow (c # s) =
     (if \<not> is_digit c then (x, scale, c # s)
      else if overflow then leading_fraction_loop x scale overflow s
      else if x > 922337203685477580 then leading_fraction_loop x scale True s
      else let y = x * 10 + of_char c - 48
           in if y > two63 then leading_fraction_loop x scale True s
              else leading_fraction_loop y (f64_mul scale (FFin 10 0)) overflow s)"

definition leading_fraction :: "string \<Rightarrow> u64 \<times> f64 \<times> string" where
  "leading_fraction s = leading_fraction_loop 0 (FFin 1 0) False s"

section \<open>Error messages\<close>

definition lowerhex :: "nat \<Rightarrow> char" where
  "lowerhex n = ''0123456789abcdef'' ! n"

text \<open>
  The code ranges over runes and escapes each byte of a rune that is not printable ASCII, so
  the result is computed byte by byte.
\<close>

definition quote_byte :: "char \<Rightarrow> string" where
  "quote_byte c = (let n = of_char c :: nat in
     if 128 \<le> n \<or> n < 32
     then [CHR 0x5C, CHR ''x'', lowerhex (n div 16), lowerhex (n mod 16)]
     else if c = CHR 0x22 \<or> c = CHR 0x5C then [CHR 0x5C, c] else [c])"

definition quote :: "string \<Rightarrow> string" where
  "quote s = [CHR 0x22] @ concat (map quote_byte s) @ [CHR 0x22]"

datatype dur_error =
    InvalidDuration string
  | MissingUnit string
  | UnknownUnit string string

fun dur_error_text :: "dur_error \<Rightarrow> string" where
  "dur_error_text (InvalidDuration orig) = ''time: invalid duration '' @ quote orig"
| "dur_error_text (MissingUnit orig) = ''time: missing unit in duration '' @ quote orig"
| "dur_error_text (UnknownUnit u orig) =
     ''time: unknown unit '' @ quote u @ '' in duration '' @ quote orig"

section \<open>Units\<close>

definition unit_map :: "(string, u64) gomap" where
  "unit_map =
    [(''ns'', 1),
     (''us'', 1000),
     ([CHR 0xC2, CHR 0xB5, CHR ''s''], 1000),
     ([CHR 0xCE, CHR 0xBC, CHR ''s''], 1000),
     (''ms'', 1000000),
     (''s'', 1000000000),
     (''m'', 60000000000),
     (''h'', 3600000000000),
     (''d'', 86400000000000),
     (''w'', 604800000000000),
     (''M'', 2630016000000000),
     (''y'', 31557600000000000)]"

definition unit_aliases :: "(string \<times> string list) list" where
  "unit_aliases =
    [(''us'', [[CHR 0xCE, CHR 0xBC, CHR ''s''], ''usec'']),
     (''ms'', [''msec'']),
     (''s'', [''seconds'', ''second'', ''sec'']),
     (''m'', [''minutes'', ''minute'', ''min'']),
     (''h'', [''hours'', ''hour'', ''hr'']),
     (''d'', [''days'', ''day'']),
     (''w'', [''weeks'', ''week'']),
     (''M'', [''months'', ''month'']),
     (''y'', [''years'', ''year''])]"

definition normalise_duration :: "string \<Rightarrow> string" where
  "normalise_duration s =
     fold (\<lambda>(what, withs) s. fold (\<lambda>w s. replace_all s w what) withs s)
       unit_aliases (replace_all s '' '' [])"

section \<open>The loop over the components\<close>

definition unit_char :: "char \<Rightarrow> bool" where
  "unit_char c = (\<not> (c = CHR ''.'' \<or> is_digit c))"

text \<open>The optional fraction after the integer digits: value, scale, rest, and whether digits
  were consumed.\<close>

definition fraction_part :: "string \<Rightarrow> u64 \<times> f64 \<times> string \<times> bool" where
  "fraction_part s =
     (if s \<noteq> [] \<and> hd s = CHR ''.''
      then let (f, scale, r) = leading_fraction (tl s)
           in (f, scale, r, length (tl s) \<noteq> length r)
      else (0, FFin 1 0, s, False))"

text \<open>One round of the loop: the value of the component at the front, and what is left.\<close>

definition dur_component :: "string \<Rightarrow> string \<Rightarrow> dur_error + (u64 \<times> string)" where
  "dur_component orig s =
     (if \<not> (hd s = CHR ''.'' \<or> is_digit (hd s)) then Inl (InvalidDuration orig)
      else case leading_int s of
        None \<Rightarrow> Inl (InvalidDuration orig)
      | Some (v, s1) \<Rightarrow>
          (let pre = (length s \<noteq> length s1);
               (f, scale, s2, post) = fraction_part s1;
               u = takeWhile unit_char s2; s3 = dropWhile unit_char s2
           in if \<not> pre \<and> \<not> post then Inl (InvalidDuration orig)
              else if u = [] then Inl (MissingUnit orig)
              else case map_of unit_map u of
                None \<Rightarrow> Inl (UnknownUnit u orig)
              | Some k \<Rightarrow>
                  if v > two63 div k then Inl (InvalidDuration orig)
                  else let v1 = v * k;
                           v2 = v1 + u64_of_f64 (f64_mul (f64_of_u64 f) (f64_div (f64_of_u64 k) scale))
                       in if f > 0 then if v2 > two63 then Inl (InvalidDuration orig)
                                        else Inr (v2, s3)
                          else Inr (v1, s3)))"

lemma leading_int_loop_length:
  "leading_int_loop x s = Some (v, r) \<Longrightarrow> length r \<le> length s"
  by (induction x s rule: leading_int_loop.induct) (auto simp: Let_def split: if_splits)

lemma leading_fraction_loop_length:
  "leading_fraction_loop x sc ov s = (f, sc', r) \<Longrightarrow> length r \<le> length s"
  by (induction x sc ov s rule: leading_fraction_loop.induct)
     (auto simp: Let_def split: if_splits)

lemma fraction_part_length: "fraction_part s = (f, sc, r, b) \<Longrightarrow> length r \<le> length s"
  by (cases s) (auto simp: fraction_part_def leading_fraction_def split: if_splits prod.splits
      dest!: leading_fraction_loop_length)

lemma dur_component_length:
  assumes "dur_component orig s = Inr (v, r)"
  shows "length r < length s"
proof -
  from assms obtain v0 s1 f sc s2 b where li: "leading_int s = Some (v0, s1)"
    and fp: "fraction_part s1 = (f, sc, s2, b)"
    and u: "takeWhile unit_char s2 \<noteq> []" and r: "r = dropWhile unit_char s2"
    by (auto simp: dur_component_def Let_def split: if_splits option.splits prod.splits)
  have "length s2 = length (takeWhile unit_char s2) + length r"
    by (metis length_append r takeWhile_dropWhile_id)
  then have "length r < length s2" using u by (cases "takeWhile unit_char s2") auto
  moreover have "length s2 \<le> length s1" using fp by (rule fraction_part_length)
  moreover have "length s1 \<le> length s"
    using li leading_int_loop_length by (simp add: leading_int_def)
  ultimately show ?thesis by simp
qed

function dur_loop :: "string \<Rightarrow> u64 \<Rightarrow> string \<Rightarrow> dur_error + u64" where
  "dur_loop orig d s =
     (if s = [] then Inr d
      else case dur_component orig s of
        Inl e \<Rightarrow> Inl e
      | Inr vr \<Rightarrow>
          (let d' = d + fst vr
           in if d' > two63 then Inl (InvalidDuration orig) else dur_loop orig d' (snd vr)))"
  by pat_completeness auto
termination
  by (relation "measure (\<lambda>(orig, d, s). length s)") (auto dest: dur_component_length)

declare dur_loop.simps [simp del]

section \<open>parseSystemdDuration\<close>

text \<open>A \<open>time.Duration\<close> is an \<open>int64\<close>, read here as the signed value of the word.\<close>

definition parse_normalised :: "string \<Rightarrow> dur_error + int" where
  "parse_normalised orig =
     (let (neg, s) = (case orig of [] \<Rightarrow> (False, [])
                      | c # r \<Rightarrow> if c = CHR ''-'' \<or> c = CHR ''+'' then (c = CHR ''-'', r)
                                else (False, orig))
      in if s = ''0'' then Inr 0
         else if s = [] then Inl (InvalidDuration orig)
         else case dur_loop orig 0 s of
           Inl e \<Rightarrow> Inl e
         | Inr d \<Rightarrow> if neg then Inr (sint (- d))
                    else if d > two63 - 1 then Inl (InvalidDuration orig)
                    else Inr (sint d))"

definition parse_systemd_duration :: "string \<Rightarrow> dur_error + int" where
  "parse_systemd_duration s =
     (if list_all is_digit s
      then Inr (sint (word_of_int 1000000000 * word_of_int (fst (atoi s)) :: u64))
      else parse_normalised (normalise_duration s))"

section \<open>Lemmas\<close>

lemma two63_uint: "uint two63 = 9223372036854775808"
  by (simp add: two63_def)


lemma uint_ge_neg [simp]: "- numeral k \<le> uint w"
  by (rule order_trans [of _ 0]) simp_all

lemma neg_uint_less [simp]: "- uint w \<le> numeral k" "- uint w < numeral k"
  by (rule order_trans [of _ 0] order_le_less_trans [of _ 0], simp_all)+

lemma u64_digit_step:
  assumes d: "is_digit c" and le: "10 * uint (x::u64) + digit_val c \<le> 9223372036854775808"
  shows "uint (x * 10 + of_char c - 48) = 10 * uint x + digit_val c"
proof -
  have b: "48 \<le> int (of_char c)" "int (of_char c) \<le> 57" using d by (auto simp: is_digit_def Let_def)
  have "x * 10 + of_char c - 48 = (word_of_int (uint x * 10 + int (of_char c) - 48) :: u64)"
    unfolding of_nat_of_char [of c, symmetric, where 'a = "64 word"] by simp
  then have "uint (x * 10 + of_char c - 48) = (uint x * 10 + int (of_char c) - 48) mod 2 ^ 64"
    by (simp only: uint_word_of_int) simp
  also have "\<dots> = uint x * 10 + int (of_char c) - 48"
  proof (rule mod_pos_pos_trivial)
    show "0 \<le> uint x * 10 + int (of_char c) - 48" using b uint_ge_0 [of x] by linarith
    show "uint x * 10 + int (of_char c) - 48 < 2 ^ 64" using b le by (simp add: digit_val_def)
  qed
  finally show ?thesis by (simp add: digit_val_def)
qed

lemma digits_val_ge: "list_all is_digit ds \<Longrightarrow> 0 \<le> a \<Longrightarrow> a \<le> digits_val a ds"
proof (induction ds arbitrary: a)
  case (Cons c ds)
  then have "a \<le> 10 * a + digit_val c" by (auto simp: digit_val_def is_digit_def Let_def)
  moreover have "10 * a + digit_val c \<le> digits_val (10 * a + digit_val c) ds"
    using Cons calculation by auto
  ultimately show ?case by simp
qed simp

lemma leading_int_loop_digits:
  assumes "list_all is_digit ds" "r = [] \<or> \<not> is_digit (hd r)"
    "digits_val (uint x) ds \<le> 9223372036854775808"
  shows "leading_int_loop x (ds @ r) = Some (word_of_int (digits_val (uint x) ds), r)"
  using assms
proof (induction ds arbitrary: x)
  case Nil
  then show ?case by (cases r) auto
next
  case (Cons c ds)
  let ?y = "10 * uint x + digit_val c"
  have c: "is_digit c" and y0: "0 \<le> ?y" using Cons.prems by (auto simp: digit_val_def is_digit_def Let_def)
  have "?y \<le> digits_val ?y ds" using Cons.prems y0 by (intro digits_val_ge) auto
  with Cons.prems have le: "?y \<le> 9223372036854775808" by simp
  note u = u64_digit_step [OF c le]
  have "\<not> x > 922337203685477580"
    using le c by (auto simp: word_less_def digit_val_def is_digit_def Let_def)
  moreover have "\<not> x * 10 + of_char c - 48 > two63"
    using le u by (simp add: word_less_def two63_uint)
  ultimately show ?case using Cons.IH [of "x * 10 + of_char c - 48"] Cons.prems c u
    by (simp add: Let_def)
qed


lemma sint_small: "uint (x::u64) \<le> 9223372036854775807 \<Longrightarrow> sint x = uint x"
  unfolding sint_uint by (rule signed_take_bit_int_eq_self) (auto intro: order_trans [of _ 0])

lemma sint_neg:
  assumes "uint (x::u64) \<le> 9223372036854775808"
  shows "sint (- x) = - uint x"
proof -
  have "- x = word_of_int (- uint x)" by simp
  then have "sint (- x) = sint (word_of_int (- uint x) :: u64)" by (rule arg_cong)
  also have "\<dots> = signed_take_bit 63 (- uint x)" by (subst sint_sbintrunc') simp
  also have "\<dots> = - uint x"
    using assms by (intro signed_take_bit_int_eq_self) simp_all
  finally show ?thesis .
qed

section \<open>Sequences of components\<close>

definition render_duration :: "(int \<times> string) list \<Rightarrow> string" where
  "render_duration cs = concat (map (\<lambda>(n, u). dec_digits n @ u) cs)"

definition unit_value :: "string \<Rightarrow> int" where
  "unit_value u = (case map_of unit_map u of Some k \<Rightarrow> uint k | None \<Rightarrow> 0)"

definition duration_total :: "(int \<times> string) list \<Rightarrow> int" where
  "duration_total cs = sum_list (map (\<lambda>(n, u). n * unit_value u) cs)"

definition duration_parts_ok :: "(int \<times> string) list \<Rightarrow> bool" where
  "duration_parts_ok cs = list_all (\<lambda>(n, u). 0 \<le> n \<and> u \<in> set (gm_keys unit_map)) cs"

lemma unit_map_unit:
  "u \<in> set (gm_keys unit_map) \<Longrightarrow>
   u \<noteq> [] \<and> list_all unit_char u \<and> (\<exists>k. map_of unit_map u = Some k \<and> 0 < uint k \<and> unit_value u = uint k)"
  by (auto simp: unit_map_def unit_char_def is_digit_def unit_value_def)

lemma digits_hd: "0 \<le> n \<Longrightarrow> is_digit (hd (dec_digits n @ r))"
  using dec_digits_ok [of n] by (cases "dec_digits n") auto

lemma render_hd: "duration_parts_ok cs \<Longrightarrow> render_duration cs = [] \<or> is_digit (hd (render_duration cs))"
  by (cases cs) (auto simp: render_duration_def duration_parts_ok_def digits_hd)

lemma duration_total_nonneg: "duration_parts_ok cs \<Longrightarrow> 0 \<le> duration_total cs"
  unfolding duration_total_def duration_parts_ok_def
  by (rule sum_list_nonneg) (fastforce simp: list_all_iff unit_value_def split: option.split)

lemma dur_component_render:
  assumes n: "0 \<le> n" and u: "u \<in> set (gm_keys unit_map)"
    and le: "n * unit_value u \<le> 9223372036854775808" and r: "r = [] \<or> is_digit (hd r)"
  shows "dur_component orig (dec_digits n @ u @ r) = Inr (word_of_int (n * unit_value u), r)"
proof -
  from unit_map_unit [OF u] obtain k where une: "u \<noteq> []" and uc: "list_all unit_char u"
    and k: "map_of unit_map u = Some k" "0 < uint k" "unit_value u = uint k" by auto
  note dd = dec_digits_ok [OF n]
  from k have "n * 1 \<le> n * uint k" using n by (intro mult_left_mono) auto
  with le k have nle: "n \<le> 9223372036854775808" by simp
  obtain c u' where cu: "u = c # u'" "unit_char c" using une uc by (cases u) auto
  then have c: "\<not> is_digit c" "c \<noteq> CHR ''.''" by (auto simp: unit_char_def)
  have li: "leading_int (dec_digits n @ u @ r) = Some (word_of_int n, u @ r)"
    using leading_int_loop_digits [of "dec_digits n" "u @ r" 0] dd nle c cu by (simp add: leading_int_def)
  have fp: "fraction_part (u @ r) = (0, FFin 1 0, u @ r, False)"
    using c cu by (simp add: fraction_part_def)
  have sp: "takeWhile unit_char (u @ r) = u" "dropWhile unit_char (u @ r) = r"
    using span_all [of u unit_char r] uc r by (auto simp: list_all_iff unit_char_def)
  have un: "uint (word_of_int n :: u64) = n"
    using n nle by (simp add: uint_word_of_int)
  have "n \<le> 9223372036854775808 div uint k"
    using zdiv_mono1 [of "n * uint k" 9223372036854775808 "uint k"] le k by simp
  then have "\<not> word_of_int n > two63 div k"
    by (simp add: word_less_def un uint_div two63_uint)
  moreover have "word_of_int n * k = (word_of_int (n * uint k) :: u64)" by simp
  ultimately show ?thesis using dd digits_hd [OF n, of "u @ r"] une
    by (simp add: dur_component_def li fp sp k Let_def)
qed

lemma dur_loop_render:
  assumes "duration_parts_ok cs" "uint d + duration_total cs \<le> 9223372036854775808"
  shows "dur_loop orig d (render_duration cs) = Inr (word_of_int (uint d + duration_total cs))"
  using assms
proof (induction cs arbitrary: d)
  case Nil
  then show ?case by (simp add: render_duration_def duration_total_def dur_loop.simps)
next
  case (Cons c cs)
  obtain n u where c: "c = (n, u)" by (cases c)
  let ?v = "n * unit_value u"
  have ok: "0 \<le> n" "u \<in> set (gm_keys unit_map)" "duration_parts_ok cs"
    using Cons.prems c by (auto simp: duration_parts_ok_def)
  have v0: "0 \<le> ?v" using ok by (simp add: unit_value_def split: option.split)
  note t0 = duration_total_nonneg [OF ok(3)]
  have sum: "uint d + ?v + duration_total cs \<le> 9223372036854775808"
    using Cons.prems c by (simp add: duration_total_def)
  have vle: "?v \<le> 9223372036854775808" using sum t0 uint_ge_0 [of d] by linarith
  have r: "render_duration (c # cs) = dec_digits n @ u @ render_duration cs"
    by (simp add: c render_duration_def)
  note comp = dur_component_render [OF ok(1,2) vle render_hd [OF ok(3)], of orig]
  define w where "w = d + word_of_int ?v"
  have ud: "uint w = uint d + ?v"
  proof -
    have "w = word_of_int (uint d + ?v)" by (simp add: w_def)
    then have "uint w = (uint d + ?v) mod 2 ^ 64"
      by (simp only: uint_word_of_int) simp
    also have "\<dots> = uint d + ?v"
      using sum t0 v0 uint_ge_0 [of d] by (intro mod_pos_pos_trivial) auto
    finally show ?thesis .
  qed
  have "\<not> w > two63"
    using sum t0 by (simp add: word_less_def ud two63_uint)
  moreover have "dec_digits n \<noteq> []" using dec_digits_ok [OF ok(1)] by simp
  ultimately have "dur_loop orig d (render_duration (c # cs)) =
      dur_loop orig w (render_duration cs)"
    by (simp add: dur_loop.simps [of orig d] r comp Let_def w_def)
  also have "\<dots> = Inr (word_of_int (uint d + duration_total (c # cs)))"
    using Cons.IH [OF ok(3), of w] sum
    by (simp add: ud c duration_total_def add.assoc)
  finally show ?case .
qed

section \<open>Properties\<close>



text \<open>
  C25. A sequence of components \<open>n1 u1 n2 u2 \<dots>\<close>, each a decimal number followed by a unit of
  \<open>unitMap\<close>, parses to the exact sum of the components, and with a minus sign in front to its
  negation, whenever that sum is a \<open>time.Duration\<close>.
\<close>

theorem parse_normalised_components:
  assumes "cs \<noteq> []" "duration_parts_ok cs" "duration_total cs \<le> max_int"
  shows "parse_normalised (render_duration cs) = Inr (duration_total cs)
    \<and> parse_normalised (''-'' @ render_duration cs) = Inr (- duration_total cs)"
proof -
  obtain n u cs' where cs: "cs = (n, u) # cs'" using assms(1) by (cases cs) auto
  then have n: "0 \<le> n" and u: "u \<in> set (gm_keys unit_map)"
    using assms(2) by (auto simp: duration_parts_ok_def)
  let ?s = "render_duration cs" and ?t = "duration_total cs"
  have s: "?s = dec_digits n @ u @ render_duration cs'" by (simp add: cs render_duration_def)
  obtain c r where cr: "?s = c # r" "is_digit c"
    using dec_digits_ok [OF n] s by (cases "dec_digits n") auto
  have "\<not> list_all is_digit ?s"
    using s unit_map_unit [OF u] by (cases u) (auto simp: unit_char_def)
  then have n0: "?s \<noteq> ''0''" by (auto simp: is_digit_def)
  note t0 = duration_total_nonneg [OF assms(2)]
  have t: "?t \<le> 9223372036854775807" using assms(3) by (simp add: max_int_def)
  have dl: "dur_loop o' 0 ?s = Inr (word_of_int ?t)" for o'
    using dur_loop_render [OF assms(2), of 0 o'] t by simp
  have ut: "uint (word_of_int ?t :: u64) = ?t" using t t0 by (simp add: uint_word_of_int)
  have "\<not> word_of_int ?t > two63 - 1" using t by (simp add: word_less_def ut two63_def)
  moreover have "sint (word_of_int ?t :: u64) = ?t" using sint_small [of "word_of_int ?t"] t ut by simp
  moreover have "sint (- word_of_int ?t :: u64) = - ?t" using sint_neg [of "word_of_int ?t"] t ut by simp
  ultimately show ?thesis using cr n0 dl [of ?s] dl [of "''-'' @ ?s"] is_digit_sign [OF cr(2)]
    by (auto simp add: parse_normalised_def Let_def)
qed

theorem parse_normalised_components_witness:
  "parse_normalised ''5m20s'' = Inr 320000000000"
proof -
  have d: "duration_parts_ok [(5, ''m''), (20, ''s'')]" by (simp add: duration_parts_ok_def unit_map_def)
  have t: "duration_total [(5, ''m''), (20, ''s'')] = 320000000000"
    by (simp add: duration_total_def unit_value_def unit_map_def)
  have "render_duration [(5, ''m''), (20, ''s'')] = ''5m20s''"
    by code_simp
  then show ?thesis
    using parse_normalised_components [of "[(5, ''m''), (20, ''s'')]"] d t by (simp add: max_int_def)
qed

text \<open>
  It need not be the sum that was written: the check after \<open>d += v\<close> misses a sum of exactly 2 to the
  power 64, which wraps to zero.
\<close>

theorem duration_sum_wraps:
  "parse_systemd_duration ''9223372036854775808ns9223372036854775808ns'' = Inr 0"
  by code_simp

text \<open>A string of digits is a number of seconds, as long as that many nanoseconds fit in 63 bits.\<close>

theorem digits_are_seconds:
  assumes "s \<noteq> []" "list_all is_digit s" "digits_val 0 s \<le> 9223372036"
  shows "parse_systemd_duration s = Inr (1000000000 * digits_val 0 s)"
proof -
  let ?n = "digits_val 0 s"
  have n0: "0 \<le> ?n" using digits_val_ge [OF assms(2), of 0] by simp
  have "atoi s = (?n, None)"
    using assms n0 by (simp add: atoi_digits max_int_def min_int_def)
  moreover have "word_of_int 1000000000 * word_of_int ?n = (word_of_int (1000000000 * ?n) :: u64)" by simp
  moreover have "uint (word_of_int (1000000000 * ?n) :: u64) = 1000000000 * ?n"
    using assms n0 by (simp only: uint_word_of_int) simp
  ultimately show ?thesis
    using assms sint_small [of "word_of_int (1000000000 * ?n)"]
    by (simp add: parse_systemd_duration_def)
qed

theorem digits_are_seconds_witness: "parse_systemd_duration ''90'' = Inr 90000000000"
  using digits_are_seconds [of "''90''"] by (simp add: is_digit_def digit_val_def)

text \<open>
  Beyond that range a string of digits is accepted without an error and its product wraps:
  the digits branch has none of the overflow checks of the other one and drops the error of
  \<open>strconv.Atoi\<close>. A stop timeout of 9223372037 seconds becomes a negative duration, and so
  does one that \<open>Atoi\<close> itself cannot represent.
\<close>

theorem digits_overflow_silently:
  "parse_systemd_duration ''9223372037'' = Inr (- 9223372036709551616)
    \<and> parse_systemd_duration ''99999999999999999999'' = Inr (- 1000000000)"
  by code_simp

text \<open>
  The comment on \<open>TimeoutStopSec\<close> promises the value \<open>infinity\<close>; the parser refuses it,
  and \<open>loadUnitFile\<close> then gives up on the whole file.
\<close>

theorem infinity_is_refused:
  "parse_systemd_duration ''infinity'' = Inl (InvalidDuration ''infinity'')"
  by code_simp

end
