(* ===== verification/PidTracker.thy ===== *)
theory PidTracker
  imports GoStrings
begin

text \<open>
  The process tracker: \<open>systemd/pidtracker/pidtracker.go\<close> (\<open>Add\<close>, \<open>Find\<close>, \<open>find\<close>), the
  handler of the tracking socket in \<open>pidtrack\<close> of \<open>systemd/main.go\<close>, and the message that the
  preloaded library writes to that socket (\<open>forkpreload/preload.c\<close>).
\<close>

section \<open>The relation and its updates\<close>

type_synonym relations = "(int, int list) gomap"

text \<open>Reading a missing key of a Go map of slices gives the nil slice.\<close>

definition kids_of :: "relations \<Rightarrow> int \<Rightarrow> int list" where
  "kids_of rel pid = (case map_of rel pid of None \<Rightarrow> [] | Some cs \<Rightarrow> cs)"

definition add_kid :: "int \<Rightarrow> int \<Rightarrow> relations \<Rightarrow> relations" where
  "add_kid parent child rel = AList.update parent (kids_of rel parent @ [child]) rel"

definition pid_add :: "int \<Rightarrow> int \<Rightarrow> int \<Rightarrow> relations \<Rightarrow> relations" where
  "pid_add parent child infant rel =
     (if child = -1 then rel
      else let rel1 = (if parent \<noteq> -1 then add_kid parent child rel else rel)
           in if infant \<noteq> -1 then add_kid child infant rel1 else rel1)"

section \<open>find\<close>

definition add_new :: "int \<Rightarrow> int list \<Rightarrow> int list" where
  "add_new c xs = (if List.member xs c then xs else xs @ [c])"

text \<open>
  \<open>find\<close> calls itself on every child and keeps no set of visited processes, so it need not
  return: the model spends one unit of fuel per level of the recursion and \<open>None\<close> says that
  the fuel ran out. \<open>collect\<close> is the loop over the children of the one matching entry.
\<close>

function find_fuel :: "nat \<Rightarrow> relations \<Rightarrow> int \<Rightarrow> int list option"
  and collect :: "nat \<Rightarrow> relations \<Rightarrow> int list \<Rightarrow> int list \<Rightarrow> int list option" where
  "find_fuel 0 rel pid = None"
| "find_fuel (Suc n) rel pid =
     (case collect n rel [] (kids_of rel pid) of
        None \<Rightarrow> None
      | Some children \<Rightarrow> Some (filter (\<lambda>c. c \<in> set (kids_of rel 1)) children))"
| "collect n rel children [] = Some children"
| "collect n rel children (c # cs) =
     (case find_fuel n rel c of
        None \<Rightarrow> None
      | Some ccs \<Rightarrow> collect n rel (fold add_new ccs (add_new c children)) cs)"
  by pat_completeness auto
termination
  by (relation "measures [case_sum (\<lambda>(n, _). n) (\<lambda>(n, _, _, _). n),
       case_sum (\<lambda>_. 0) (\<lambda>(_, _, _, cs). Suc (length cs))]") auto

section \<open>The tracking socket\<close>

text \<open>
  One connection: the bytes read are split at colons; three fields are parent, child and infant,
  two are parent and child, anything else or a field that is not a number is logged and dropped.
\<close>

definition pidtrack_message :: "string \<Rightarrow> relations \<Rightarrow> relations" where
  "pidtrack_message buf rel =
     (let kids = split_at (CHR '':'') buf
      in case kids of
           [a, b, c] \<Rightarrow>
             (case atoi c of
                (infant, None) \<Rightarrow>
                  (case (atoi b, atoi a) of
                     ((child, None), (parent, None)) \<Rightarrow> pid_add parent child infant rel
                   | _ \<Rightarrow> rel)
              | _ \<Rightarrow> rel)
         | [a, b] \<Rightarrow>
             (case (atoi b, atoi a) of
                ((child, None), (parent, None)) \<Rightarrow> pid_add parent child (-1) rel
              | _ \<Rightarrow> rel)
         | _ \<Rightarrow> rel)"

text \<open>The writer: \<open>snprintf\<close> into 36 bytes, so at most 35 characters.\<close>

definition preload_message :: "int \<Rightarrow> int \<Rightarrow> int option \<Rightarrow> string" where
  "preload_message parent child infant =
     take 35 (case infant of
        Some i \<Rightarrow> itoa parent @ '':'' @ itoa child @ '':'' @ itoa i
      | None \<Rightarrow> itoa parent @ '':'' @ itoa child)"

section \<open>Lemmas\<close>

definition edges :: "relations \<Rightarrow> (int \<times> int) set" where
  "edges rel = {(p, c). c \<in> set (kids_of rel p)}"

lemma kids_of_add_kid:
  "kids_of (add_kid p c rel) q = (if q = p then kids_of rel p @ [c] else kids_of rel q)"
  by (simp add: kids_of_def add_kid_def gm.get_put)

lemma edges_add_kid: "edges (add_kid p c rel) = insert (p, c) (edges rel)"
  by (auto simp: edges_def kids_of_add_kid split: if_splits)

lemma add_new_set [simp]: "set (add_new c xs) = insert c (set xs)"
  by (auto simp: add_new_def)

lemma add_new_distinct: "distinct xs \<Longrightarrow> distinct (add_new c xs)"
  by (auto simp: add_new_def)

lemma fold_add_new_set [simp]: "set (fold add_new cs xs) = set cs \<union> set xs"
  by (induction cs arbitrary: xs) auto

lemma fold_add_new_distinct: "distinct xs \<Longrightarrow> distinct (fold add_new cs xs)"
  by (induction cs arbitrary: xs) (auto intro: add_new_distinct)

lemma trancl_kids: "(p, x) \<in> (edges rel)\<^sup>+ \<longleftrightarrow>
   (\<exists>c \<in> set (kids_of rel p). x = c \<or> (c, x) \<in> (edges rel)\<^sup>+)"
  by (subst trancl_unfold_left) (auto simp: edges_def rtrancl_eq_or_trancl relcomp_unfold)

text \<open>The processes \<open>find\<close> is to return: descendants that were adopted by process 1.\<close>

definition adopted :: "relations \<Rightarrow> int \<Rightarrow> int set" where
  "adopted rel pid = {c. (pid, c) \<in> (edges rel)\<^sup>+ \<and> (1, c) \<in> edges rel}"

lemma adopted_kids: "adopted rel p =
   {x. (\<exists>c \<in> set (kids_of rel p). x = c \<or> x \<in> adopted rel c) \<and> x \<in> set (kids_of rel 1)}"
  unfolding adopted_def by (subst trancl_kids) (auto simp: edges_def)

lemma find_collect_set:
  shows "find_fuel n rel pid = Some r \<Longrightarrow> set r = adopted rel pid \<and> distinct r"
    and "collect n rel acc cs = Some r' \<Longrightarrow>
      set r' = set acc \<union> {x. \<exists>c \<in> set cs. x = c \<or> x \<in> adopted rel c} \<and> (distinct acc \<longrightarrow> distinct r')"
proof (induction n rel pid and n rel acc cs arbitrary: r and r' rule: find_fuel_collect.induct)
  case (2 n rel pid)
  from "2.prems" obtain ch where ch: "collect n rel [] (kids_of rel pid) = Some ch"
    and r: "r = filter (\<lambda>c. c \<in> set (kids_of rel 1)) ch"
    by (auto split: option.splits)
  have "set ch = {x. \<exists>c \<in> set (kids_of rel pid). x = c \<or> x \<in> adopted rel c}" "distinct ch"
    using "2.IH" [OF ch] by simp_all
  then show ?case unfolding r adopted_kids [of rel pid] by auto
next
  case (4 n rel children c cs)
  from "4.prems" obtain ccs where ccs: "find_fuel n rel c = Some ccs"
    and rest: "collect n rel (fold add_new ccs (add_new c children)) cs = Some r'"
    by (auto split: option.splits)
  have c: "set ccs = adopted rel c" using "4.IH" (1) [OF ccs] by blast
  have "set r' = set (fold add_new ccs (add_new c children)) \<union>
      {x. \<exists>d \<in> set cs. x = d \<or> x \<in> adopted rel d}"
    and "distinct (fold add_new ccs (add_new c children)) \<longrightarrow> distinct r'"
    using "4.IH" (2) [OF ccs rest] by blast+
  then show ?case using c by (auto simp: fold_add_new_distinct add_new_distinct)
qed auto

lemma find_collect_mono:
  shows "find_fuel n rel pid = Some r \<Longrightarrow> n \<le> m \<Longrightarrow> find_fuel m rel pid = Some r"
    and "collect n rel acc cs = Some r' \<Longrightarrow> n \<le> m \<Longrightarrow> collect m rel acc cs = Some r'"
proof (induction n rel pid and n rel acc cs arbitrary: r m and r' m rule: find_fuel_collect.induct)
  case (2 n rel pid)
  from "2.prems" obtain m' where m: "m = Suc m'" "n \<le> m'" by (cases m) simp_all
  from "2.prems" obtain ch where ch: "collect n rel [] (kids_of rel pid) = Some ch"
    and r: "r = filter (\<lambda>c. c \<in> set (kids_of rel 1)) ch" by (auto split: option.splits)
  from "2.IH" [OF ch m(2)] r m show ?case by simp
next
  case (4 n rel children c cs)
  from "4.prems" obtain ccs where ccs: "find_fuel n rel c = Some ccs"
    and rest: "collect n rel (fold add_new ccs (add_new c children)) cs = Some r'"
    by (auto split: option.splits)
  from "4.IH" (1) [OF ccs "4.prems" (2)] "4.IH" (2) [OF ccs rest "4.prems" (2)] show ?case by simp
qed auto

lemma collect_defined:
  "(\<exists>r. collect n rel acc cs = Some r) \<longleftrightarrow> (\<forall>c \<in> set cs. \<exists>r. find_fuel n rel c = Some r)"
  by (induction cs arbitrary: acc) (auto split: option.splits)

lemma find_fuel_Suc_defined:
  "(\<exists>r. find_fuel (Suc n) rel pid = Some r) \<longleftrightarrow>
   (\<forall>c \<in> set (kids_of rel pid). \<exists>r. find_fuel n rel c = Some r)"
  using collect_defined [of n rel "[]" "kids_of rel pid"] by (auto split: option.splits)

text \<open>A process on a cycle: no amount of fuel is enough.\<close>

lemma find_cycle: "(p, p) \<in> (edges rel)\<^sup>+ \<Longrightarrow> find_fuel n rel p = None"
proof (induction n arbitrary: p)
  case (Suc n)
  then obtain c where c: "(p, c) \<in> edges rel" "(c, p) \<in> (edges rel)\<^sup>*"
    by (meson tranclD)
  then have "(c, c) \<in> (edges rel)\<^sup>+" by (meson rtrancl_into_trancl1)
  then have "find_fuel n rel c = None" by (rule Suc.IH)
  with c show ?case using find_fuel_Suc_defined [of n rel p] by (force simp: edges_def)
qed simp

lemma find_reach_cycle:
  "(p, c) \<in> (edges rel)\<^sup>* \<Longrightarrow> (c, c) \<in> (edges rel)\<^sup>+ \<Longrightarrow> find_fuel n rel p = None"
proof (induction arbitrary: n rule: converse_rtrancl_induct)
  case (step y z)
  show ?case
  proof (cases n)
    case (Suc k)
    have "find_fuel k rel z = None" using step by blast
    with Suc step.hyps show ?thesis using find_fuel_Suc_defined [of k rel y] by (force simp: edges_def)
  qed simp
qed (rule find_cycle)

text \<open>Without a cycle below it, the number of parents reachable from a process bounds the depth.\<close>

definition below :: "relations \<Rightarrow> int \<Rightarrow> int set" where
  "below rel pid = {k \<in> set (gm_keys rel). (pid, k) \<in> (edges rel)\<^sup>*}"

lemma edges_key: "(p, c) \<in> edges rel \<Longrightarrow> p \<in> set (gm_keys rel)"
  by (cases "map_of rel p") (auto simp: edges_def kids_of_def dest!: map_of_SomeD intro: rev_image_eqI)

lemma find_enough:
  "(\<forall>c. (pid, c) \<in> (edges rel)\<^sup>* \<longrightarrow> (c, c) \<notin> (edges rel)\<^sup>+) \<Longrightarrow> card (below rel pid) \<le> n \<Longrightarrow>
   \<exists>r. find_fuel (Suc n) rel pid = Some r"
proof (induction n arbitrary: pid)
  case 0
  then have "pid \<notin> set (gm_keys rel)" by (auto simp: below_def)
  then have "kids_of rel pid = []" by (simp add: kids_of_def map_of_None_keys [THEN iffD2])
  then show ?case by simp
next
  case (Suc n)
  show ?case unfolding find_fuel_Suc_defined [of "Suc n"]
  proof
    fix c assume "c \<in> set (kids_of rel pid)"
    then have e: "(pid, c) \<in> edges rel" by (simp add: edges_def)
    have "below rel c \<subseteq> below rel pid - {pid}"
      using e Suc.prems(1) by (auto simp: below_def dest: rtrancl_into_trancl2 converse_rtrancl_into_rtrancl)
    moreover have "pid \<in> below rel pid" using edges_key [OF e] by (simp add: below_def)
    moreover have "finite (below rel pid)" by (simp add: below_def)
    ultimately have "card (below rel c) < card (below rel pid)"
      by (intro psubset_card_mono) auto
    then have "card (below rel c) \<le> n" using Suc.prems(2) by simp
    moreover have "\<forall>d. (c, d) \<in> (edges rel)\<^sup>* \<longrightarrow> (d, d) \<notin> (edges rel)\<^sup>+"
      using Suc.prems(1) e by (meson converse_rtrancl_into_rtrancl)
    ultimately show "\<exists>r. find_fuel (Suc n) rel c = Some r" by (rule Suc.IH [rotated])
  qed
qed

section \<open>Properties\<close>

text \<open>
  C22. What \<open>find\<close> returns is exactly the descendants of the process that were adopted by
  process 1, each once: nothing is missed at any depth, although every level filters its own
  result, and nothing else is returned.
\<close>

theorem find_returns_adopted:
  assumes "find_fuel n rel pid = Some cs"
  shows "set cs = {c. (pid, c) \<in> (edges rel)\<^sup>+ \<and> (1, c) \<in> edges rel} \<and> distinct cs"
  using find_collect_set (1) [OF assms] by (simp add: adopted_def)

theorem find_returns_adopted_witness:
  "find_fuel 3 [(10, [11]), (11, [12, 12]), (1, [12])] 10 = Some [12]
    \<and> set [12] = {c. (10, c) \<in> (edges [(10, [11]), (11, [12, 12]), (1, [12])])\<^sup>+
        \<and> (1, c) \<in> edges [(10, [11]), (11, [12, 12]), (1, [12])]}"
proof -
  have h: "find_fuel 3 [(10, [11]), (11, [12, 12]), (1, [12])] 10 = Some [12]" by code_simp
  show ?thesis using h find_returns_adopted [OF h] by simp
qed

text \<open>
  C23. \<open>find\<close> returns if and only if no cycle of the recorded relation can be reached from the
  process; otherwise its recursion never ends, whatever the fuel. When it returns, the number of
  recorded parents plus one is enough fuel.
\<close>

theorem find_returns_iff_acyclic:
  "((\<exists>n cs. find_fuel n rel pid = Some cs) \<longleftrightarrow>
     \<not> (\<exists>c. (pid, c) \<in> (edges rel)\<^sup>* \<and> (c, c) \<in> (edges rel)\<^sup>+))
   \<and> ((\<exists>n cs. find_fuel n rel pid = Some cs) \<longleftrightarrow>
      (\<exists>cs. find_fuel (Suc (card (set (gm_keys rel)))) rel pid = Some cs))"
proof -
  let ?ac = "\<forall>c. (pid, c) \<in> (edges rel)\<^sup>* \<longrightarrow> (c, c) \<notin> (edges rel)\<^sup>+"
  have "card (below rel pid) \<le> card (set (gm_keys rel))"
    by (intro card_mono) (auto simp: below_def)
  then have "?ac \<Longrightarrow> \<exists>cs. find_fuel (Suc (card (set (gm_keys rel)))) rel pid = Some cs"
    by (rule find_enough [rotated])
  moreover have "\<exists>n cs. find_fuel n rel pid = Some cs \<Longrightarrow> ?ac"
    using find_reach_cycle by fastforce
  ultimately show ?thesis by blast
qed

text \<open>
  One message on the world-writable tracking socket is enough to make \<open>find\<close> recurse for
  ever: \<open>"7:7"\<close>, or the reuse of a process number by a descendant, records a cycle.
\<close>

theorem tracker_cycle_diverges:
  "find_fuel n (pidtrack_message ''7:7'' rel) 7 = None"
proof -
  have "pidtrack_message ''7:7'' rel = add_kid 7 7 rel" 
    by (simp add: pidtrack_message_def pid_add_def atoi_def is_digit_def digit_val_def max_int_def min_int_def)
  then have "(7, 7) \<in> (edges (pidtrack_message ''7:7'' rel))\<^sup>+"
    by (simp add: edges_add_kid r_into_trancl')
  then show ?thesis by (rule find_cycle)
qed

lemma dec_digits_length:
  "0 \<le> n \<Longrightarrow> n < 10 ^ Suc k \<Longrightarrow> length (dec_digits n) \<le> Suc k"
proof (induction k arbitrary: n)
  case 0
  then show ?case by (subst dec_digits.simps) simp
next
  case (Suc k)
  show ?case
  proof (cases "n < 10")
    case False
    have "n div 10 < 10 ^ Suc k" using Suc.prems by simp
    then show ?thesis using Suc.IH [of "n div 10"] Suc.prems False by (subst dec_digits.simps) simp
  qed (subst dec_digits.simps, simp)
qed

lemma pid_length: "- 1 \<le> n \<Longrightarrow> n < 2147483648 \<Longrightarrow> length (itoa n) \<le> 10"
  using dec_digits_length [of n 9] dec_digits_length [of 1 0] by (cases "n = - 1") (auto simp: itoa_def)

lemma itoa_no_colon: "CHR '':'' \<notin> set (itoa n)"
proof -
  have "\<not> is_digit (CHR '':'')" by (simp add: is_digit_def)
  then show ?thesis
    using dec_digits_ok [of n] dec_digits_ok [of "- n"] by (auto simp: itoa_def list_all_iff)
qed

text \<open>
  C27. The two ends of the tracking socket agree: whatever process numbers the preloaded library
  reports (\<open>fork\<close> may report -1), its 36-byte buffer is large enough and the handler records
  exactly those numbers.
\<close>

theorem preload_message_roundtrip:
  assumes "list_all (\<lambda>p. - 1 \<le> p \<and> p < 2147483648) [parent, child, infant]"
  shows "pidtrack_message (preload_message parent child (Some infant)) rel = pid_add parent child infant rel
    \<and> pidtrack_message (preload_message parent child None) rel = pid_add parent child (-1) rel"
proof -
  have b: "length (itoa parent) \<le> 10" "length (itoa child) \<le> 10" "length (itoa infant) \<le> 10"
    using assms by (auto intro: pid_length)
  have r: "min_int \<le> p \<and> p \<le> max_int" if "p \<in> {parent, child, infant}" for p
    using that assms by (auto simp: min_int_def max_int_def)
  have s: "split_at (CHR '':'') (itoa a @ '':'' @ itoa c) = [itoa a, itoa c]" for a c
    by (simp add: split_at_append split_at_none itoa_no_colon)
  have s3: "split_at (CHR '':'') (itoa a @ '':'' @ itoa c @ '':'' @ itoa i) = [itoa a, itoa c, itoa i]" for a c i
    using s [of c i] by (simp add: split_at_append itoa_no_colon)
  show ?thesis using b r
    by (simp add: preload_message_def pidtrack_message_def Let_def s [simplified] s3 [simplified] atoi_itoa)
qed

theorem preload_message_roundtrip_witness:
  "pidtrack_message (preload_message 1 42 (Some (- 1))) [] = [(1, [42])]"
  using preload_message_roundtrip [of 1 42 "- 1" "[]"] by (simp add: pid_add_def add_kid_def kids_of_def)

end
