(* ===== verification/Common.thy ===== *)
theory Common
  imports GoStrings "HOL-Library.Word"
begin

text \<open>
  \<open>common/common.go\<close>: the directories that hold unit files, the log path of a unit, and the
  constants the two ends of the control socket share.
\<close>

type_synonym byte = "8 word"

text \<open>
  \<open>GetSystemdPaths\<close> asks \<open>os.Lstat\<close> of six paths whether they are symbolic links; the answers
  of the file system are the argument \<open>is_link\<close>.
\<close>

definition etc_units :: string where "etc_units = ''/etc/systemd/system''"
definition usr_units :: string where "usr_units = ''/usr/lib/systemd/system''"
definition lib_units :: string where "lib_units = ''/lib/systemd/system''"

definition get_systemd_paths :: "(string \<Rightarrow> bool) \<Rightarrow> string list" where
  "get_systemd_paths is_link =
     (if is_link ''/lib/systemd/system'' then [etc_units, usr_units]
      else if is_link ''/usr/lib/systemd/system'' then [etc_units, lib_units]
      else if is_link ''/lib/systemd'' then [etc_units, usr_units]
      else if is_link ''/usr/lib/systemd'' then [etc_units, lib_units]
      else if is_link ''/lib'' then [etc_units, usr_units]
      else if is_link ''/usr/lib'' then [etc_units, lib_units]
      else [etc_units, usr_units, lib_units])"

definition log_path :: string where "log_path = ''/var/log/services''"

definition get_unit_log_path :: "string \<Rightarrow> string" where
  "get_unit_log_path unit = trim (trim_suffix unit ''.service'') ''.'' @ ''.log''"

definition boot_file :: string where "boot_file = ''/etc/boot-time''"

definition socket_path :: string where "socket_path = ''/tmp/docker-systemd.sock''"

definition systemctl_exit_code_magic :: "byte list" where
  "systemctl_exit_code_magic = [0, 255, 85, 170, 0]"

section \<open>Properties\<close>

definition lib_side :: "string list" where
  "lib_side = [''/lib/systemd/system'', ''/lib/systemd'', ''/lib'']"

definition usr_side :: "string list" where
  "usr_side = [''/usr/lib/systemd/system'', ''/usr/lib/systemd'', ''/usr/lib'']"

text \<open>
  The unit directories are never read twice through a symbolic link: if a component of one
  of the two library paths is a link, and none of the other is, only the other one is listed,
  after \<open>/etc\<close>; with no link both are.
\<close>

theorem systemd_paths_skip_links:
  "get_systemd_paths is_link =
     (case (list_ex is_link lib_side, list_ex is_link usr_side) of
        (False, False) \<Rightarrow> [etc_units, usr_units, lib_units]
      | (True, False) \<Rightarrow> [etc_units, usr_units]
      | (False, True) \<Rightarrow> [etc_units, lib_units]
      | (True, True) \<Rightarrow>
          (if is_link ''/lib/systemd/system'' then [etc_units, usr_units]
           else if is_link ''/usr/lib/systemd/system'' then [etc_units, lib_units]
           else if is_link ''/lib/systemd'' then [etc_units, usr_units]
           else if is_link ''/usr/lib/systemd'' then [etc_units, lib_units]
           else [etc_units, usr_units]))"
  by (auto simp: get_systemd_paths_def lib_side_def usr_side_def)

end
