(* ===== verification/Protocol.thy ===== *)
theory Protocol
  imports Common
begin

text \<open>
  The control socket: the request that \<open>systemctl/main.go\<close> writes and the connection handler of
  \<open>systemd/main.go\<close> reads, and the reply with its exit code in the other direction. A read
  returns at most the 65536 bytes of the buffer. The interface of a self-delimiting encoding is
  the locale \<open>codec\<close>; the requests are built from two instances of it.
\<close>

unbundle bit_operations_syntax

section \<open>Codecs\<close>

text \<open>Decoding \<open>k\<close> items one after the other, stopping at the first that is malformed.\<close>

fun decode_many :: "('b list \<Rightarrow> ('a \<times> 'b list) option) \<Rightarrow> nat \<Rightarrow> 'b list \<Rightarrow> ('a list \<times> 'b list) option" where
  "decode_many dec 0 bs = Some ([], bs)"
| "decode_many dec (Suc k) bs =
     (case dec bs of None \<Rightarrow> None
      | Some (x, r) \<Rightarrow> (case decode_many dec k r of None \<Rightarrow> None
                       | Some (xs, r') \<Rightarrow> Some (x # xs, r')))"

locale codec =
  fixes enc :: "'a \<Rightarrow> 'b list"
    and dec :: "'b list \<Rightarrow> ('a \<times> 'b list) option"
    and ok :: "'a \<Rightarrow> bool"
  assumes dec_enc: "ok x \<Longrightarrow> dec (enc x @ r) = Some (x, r)"
    and enc_dec: "dec bs = Some (x, r) \<Longrightarrow> ok x \<and> bs = enc x @ r"
    and dec_short: "ok x \<Longrightarrow> m < length (enc x) \<Longrightarrow> dec (take m (enc x)) = None"
begin

lemma many_enc: "list_all ok xs \<Longrightarrow> decode_many dec (length xs) (concat (map enc xs) @ r) = Some (xs, r)"
  by (induction xs) (auto simp: dec_enc)

lemma many_dec:
  "decode_many dec k bs = Some (xs, r) \<Longrightarrow> length xs = k \<and> list_all ok xs \<and> bs = concat (map enc xs) @ r"
  by (induction k arbitrary: bs xs) (auto split: option.splits dest!: enc_dec)

lemma many_short:
  "list_all ok xs \<Longrightarrow> m < length (concat (map enc xs)) \<Longrightarrow>
   decode_many dec (length xs) (take m (concat (map enc xs))) = None"
proof (induction xs arbitrary: m)
  case (Cons x xs)
  show ?case
  proof (cases "m < length (enc x)")
    case True
    with Cons.prems show ?thesis by (simp add: dec_short)
  next
    case False
    then have "take m (concat (map enc (x # xs))) = enc x @ take (m - length (enc x)) (concat (map enc xs))"
      by simp
    then show ?thesis using Cons False by (simp add: dec_enc)
  qed
qed simp

end

section \<open>The request\<close>

text \<open>\<open>binary.LittleEndian.AppendUint16\<close> and \<open>Uint16\<close>.\<close>

definition u16_bytes :: "16 word \<Rightarrow> byte list" where
  "u16_bytes w = [ucast w, ucast (drop_bit 8 w)]"

definition u16_value :: "byte \<Rightarrow> byte \<Rightarrow> 16 word" where
  "u16_value b0 b1 = ucast b0 OR push_bit 8 (ucast b1)"

text \<open>The client's side: every length is converted to \<open>uint16\<close>, so it is taken modulo 65536.\<close>

definition encode_arg :: "byte list \<Rightarrow> byte list" where
  "encode_arg a = u16_bytes (word_of_nat (length a)) @ a"

definition client_request :: "byte list list \<Rightarrow> byte list" where
  "client_request args =
     u16_bytes (word_of_nat (length args - 1)) @ concat (map encode_arg (tl args))"

text \<open>The server's side. \<open>bufloc\<close> is the amount already dropped from the \<open>n\<close> bytes received.\<close>

fun decode_u16 :: "byte list \<Rightarrow> (16 word \<times> byte list) option" where
  "decode_u16 (b0 # b1 # r) = Some (u16_value b0 b1, r)"
| "decode_u16 _ = None"

definition decode_arg :: "byte list \<Rightarrow> (byte list \<times> byte list) option" where
  "decode_arg bs =
     (case decode_u16 bs of
        None \<Rightarrow> None
      | Some (argn, r) \<Rightarrow>
          if length r < unat argn then None else Some (take (unat argn) r, drop (unat argn) r))"

definition server_args :: "byte list \<Rightarrow> byte list list option" where
  "server_args buf =
     (case decode_u16 buf of
        None \<Rightarrow> None
      | Some (params, r) \<Rightarrow> map_option fst (decode_many decode_arg (unat params) r))"

definition buffer_size :: nat where "buffer_size = 65536"

text \<open>What one \<open>conn.Read\<close> into the buffer can deliver of the bytes written.\<close>

definition one_read :: "byte list \<Rightarrow> byte list" where
  "one_read bs = take buffer_size bs"

section \<open>The reply\<close>

text \<open>
  The handler's side of the exchange, given what \<open>command\<close> prints and returns: the text and a
  zero byte, then, once the client has answered with a zero byte, the magic number and the code.
  A malformed request closes the connection with nothing written.
\<close>

definition server_reply :: "(byte list list \<Rightarrow> byte list \<times> nat) \<Rightarrow> byte list \<Rightarrow> (byte list \<times> byte list) option" where
  "server_reply command buf =
     (case server_args buf of
        None \<Rightarrow> None
      | Some args \<Rightarrow>
          (let (out, code) = command args
           in Some (out @ [0], systemctl_exit_code_magic @ u16_bytes (word_of_nat code))))"

datatype client_result =
    Exited nat             \<comment> \<open>\<open>os.Exit\<close> with this code\<close>
  | ClientFatal            \<comment> \<open>\<open>log.Fatalf\<close>: extra bytes at the end of the message\<close>
  | ClientReading          \<comment> \<open>every chunk is consumed and the client reads on\<close>

text \<open>
  The client's receive loop over the chunks that its reads return: what it has printed, and how
  it ended. \<open>isEnd\<close> is set by the first chunk whose last byte is zero.
\<close>

fun client_loop :: "bool \<Rightarrow> byte list \<Rightarrow> byte list list \<Rightarrow> byte list \<times> client_result" where
  "client_loop isEnd out [] = (out, ClientReading)"
| "client_loop isEnd out (c # cs) =
     (if \<not> isEnd \<and> c \<noteq> [] \<and> last c = 0
      then client_loop True (if length c > 1 then out @ butlast c else out) cs
      else if isEnd
      then (if 5 \<le> length c \<and> length c \<le> 7 \<and> take 5 c = systemctl_exit_code_magic
            then (out, Exited (unat (u16_value (c ! (length c - 2)) (c ! (length c - 1)))))
            else (out, ClientFatal))
      else client_loop isEnd (out @ c) cs)"

section \<open>Lemmas\<close>

lemma u16_value_bytes: "u16_value (ucast w) (ucast (drop_bit 8 w)) = w"
proof (rule bit_word_eqI)
  fix n assume n: "n < LENGTH(16)"
  then show "bit (u16_value (ucast w) (ucast (drop_bit 8 w))) n = bit w n"
    by (cases "n < 8") (auto simp: u16_value_def bit_simps)
qed

lemma u16_bytes_value: "u16_bytes (u16_value b0 b1) = [b0, b1]"
proof -
  have "ucast (u16_value b0 b1) = b0"
    by (rule bit_word_eqI) (auto simp: u16_value_def bit_simps)
  moreover have "ucast (drop_bit 8 (u16_value b0 b1)) = b1"
    by (rule bit_word_eqI) (auto simp: u16_value_def bit_simps dest: bit_imp_le_length)
  ultimately show ?thesis by (simp add: u16_bytes_def)
qed

lemma decode_u16_bytes [simp]: "decode_u16 (u16_bytes w @ r) = Some (w, r)"
  by (simp add: u16_bytes_def u16_value_bytes)

lemma length_u16_bytes [simp]: "length (u16_bytes w) = 2"
  by (simp add: u16_bytes_def)

lemma decode_u16_short: "length bs < 2 \<Longrightarrow> decode_u16 bs = None"
  by (cases bs rule: decode_u16.cases) auto

lemma decode_u16_inv: "decode_u16 bs = Some (w, r) \<Longrightarrow> bs = u16_bytes w @ r"
  by (cases bs rule: decode_u16.cases) (auto simp: u16_bytes_value)

interpretation u16: codec u16_bytes decode_u16 "\<lambda>_. True"
proof unfold_locales
  fix w :: "16 word" and m assume "m < length (u16_bytes w)"
  then show "decode_u16 (take m (u16_bytes w)) = None" by (intro decode_u16_short) simp
qed (auto dest: decode_u16_inv)

definition arg_ok :: "byte list \<Rightarrow> bool" where
  "arg_ok a = (length a < 65536)"

lemma unat_length_u16: "n < 65536 \<Longrightarrow> unat (word_of_nat n :: 16 word) = n"
  by (simp add: unat_of_nat)

interpretation arg: codec encode_arg decode_arg arg_ok
proof unfold_locales
  fix a r assume "arg_ok a"
  then show "decode_arg (encode_arg a @ r) = Some (a, r)"
    by (simp add: decode_arg_def encode_arg_def arg_ok_def unat_length_u16)
next
  fix bs a r assume "decode_arg bs = Some (a, r)"
  then obtain w r' where d: "decode_u16 bs = Some (w, r')" and w: "unat w \<le> length r'"
    and a: "a = take (unat w) r'" "r = drop (unat w) r'"
    by (auto simp: decode_arg_def not_less split: option.splits if_splits)
  have "unat w < 2 ^ LENGTH(16)" by (rule unsigned_less)
  with u16.enc_dec [OF d] a w show "arg_ok a \<and> bs = encode_arg a @ r"
    by (simp add: arg_ok_def encode_arg_def min_absorb2)
next
  fix a m assume ok: "arg_ok a" and m: "m < length (encode_arg a)"
  show "decode_arg (take m (encode_arg a)) = None"
  proof (cases "m < 2")
    case True
    then show ?thesis by (simp add: decode_arg_def decode_u16_short)
  next
    case False
    then have "take m (encode_arg a) = u16_bytes (word_of_nat (length a)) @ take (m - 2) a"
      by (simp add: encode_arg_def)
    then show ?thesis using ok m False
      by (simp add: decode_arg_def encode_arg_def arg_ok_def unat_length_u16)
  qed
qed

lemma client_request_args:
  "list_all arg_ok (tl args) \<Longrightarrow> length (tl args) < 65536 \<Longrightarrow>
   server_args (client_request args @ r) = Some (tl args)"
  using arg.many_enc [of "tl args" r]
  by (simp add: server_args_def client_request_def unat_length_u16)

section \<open>Properties\<close>

text \<open>
  C21. A request that fits the length fields and the buffer reaches \<open>command\<close> unchanged: the
  server decodes from its one read exactly the arguments after the program name.
\<close>

theorem request_roundtrip:
  assumes "list_all arg_ok (tl args)" "length (tl args) < 65536"
    "length (client_request args) \<le> buffer_size"
  shows "server_args (one_read (client_request args)) = Some (tl args)"
  using client_request_args [OF assms(1,2), of "[]"] assms(3) by (simp add: one_read_def)

theorem request_roundtrip_witness:
  "server_args (one_read (client_request [[1], [115, 116], [], [97]])) = Some [[115, 116], [], [97]]"
  using request_roundtrip [of "[[1], [115, 116], [], [97]]"]
  by (simp add: arg_ok_def client_request_def encode_arg_def u16_bytes_def buffer_size_def)

text \<open>
  A request that is cut short anywhere, by the buffer or by a partial read, is refused as
  malformed and never run with fewer or shorter arguments.
\<close>

theorem truncated_request_refused:
  assumes "list_all arg_ok (tl args)" "length (tl args) < 65536" "m < length (client_request args)"
  shows "server_args (take m (client_request args)) = None"
proof (cases "m < 2")
  case True
  then show ?thesis by (simp add: server_args_def decode_u16_short)
next
  case False
  let ?body = "concat (map encode_arg (tl args))"
  have "take m (client_request args) = u16_bytes (word_of_nat (length (tl args))) @ take (m - 2) ?body"
    using False by (simp add: client_request_def)
  then show ?thesis
    using arg.many_short [OF assms(1), of "m - 2"] assms False
    by (simp add: server_args_def unat_length_u16 client_request_def)
qed

theorem truncated_request_refused_witness:
  "server_args (take 5 (client_request [[1], [115, 116]])) = None"
  using truncated_request_refused [of "[[1], [115, 116]]" 5]
  by (simp add: arg_ok_def client_request_def encode_arg_def)

text \<open>
  Whatever bytes arrive, arguments are accepted only if the bytes begin with their request:
  the server never invents, merges or splits arguments, and ignores what follows them.
\<close>

theorem accepted_request_is_encoding:
  assumes "server_args buf = Some xs"
  shows "\<exists>r. buf = client_request ([] # xs) @ r \<and> list_all arg_ok xs"
proof -
  from assms obtain w r r' where w: "decode_u16 buf = Some (w, r)"
    and m: "decode_many decode_arg (unat w) r = Some (xs, r')"
    by (auto simp: server_args_def split: option.splits)
  from arg.many_dec [OF m] u16.enc_dec [OF w]
  have "length xs = unat w" "list_all arg_ok xs" "buf = u16_bytes w @ concat (map encode_arg xs) @ r'"
    by auto
  then show ?thesis by (auto simp: client_request_def)
qed

theorem accepted_request_is_encoding_witness:
  "\<exists>r. [1, 0, 2, 0, 115, 116, 9] = client_request ([] # [[115, 116]]) @ r \<and> list_all arg_ok [[115, 116]]"
proof -
  have "server_args [1, 0, 2, 0, 115, 116, 9] = Some [[115, 116]]" by code_simp
  then show ?thesis by (rule accepted_request_is_encoding)
qed

text \<open>
  An argument of 65536 bytes or more is sent with its length reduced modulo 65536, and the
  server then runs the command with the argument cut down to that many bytes instead of refusing
  it: an argument of exactly 65536 bytes arrives as the empty string.
\<close>

theorem oversized_argument_truncated:
  assumes "length a = 65536 + k" "k + 4 \<le> buffer_size" "k < 65536"
  shows "server_args (one_read (client_request [p, a])) = Some [take k a]"
proof -
  have "(65536 :: 16 word) = 0" by simp
  then have l: "(word_of_nat (length a) :: 16 word) = word_of_nat k"
    using assms by simp
  have t: "take 65532 a = take k a @ take (65532 - k) (drop k a)"
    using append_take_drop_id [of k "take 65532 a"] assms by (simp add: buffer_size_def take_drop min_def)
  have "client_request [p, a] = u16_bytes 1 @ u16_bytes (word_of_nat k) @ a"
    by (simp add: client_request_def encode_arg_def l)
  then have "one_read (client_request [p, a]) =
      u16_bytes 1 @ u16_bytes (word_of_nat k) @ take k a @ take (65532 - k) (drop k a)"
    by (simp add: one_read_def buffer_size_def t)
  then show ?thesis
    using assms by (simp add: server_args_def decode_arg_def unat_length_u16)
qed

theorem oversized_argument_truncated_witness:
  "server_args (one_read (client_request [[115], replicate 65536 97])) = Some [[]]"
  using oversized_argument_truncated [of "replicate 65536 97" 0 "[115]"] by (simp add: buffer_size_def)

lemma client_loop_text:
  "\<forall>c \<in> set cs. c \<noteq> [] \<and> last c \<noteq> 0 \<Longrightarrow>
   client_loop False out (cs @ ds) = client_loop False (out @ concat cs) ds"
  by (induction cs arbitrary: out) auto

text \<open>
  C26. The reply protocol: however the output of the command is cut into reads, as long as no read
  but the last ends in a zero byte, the client prints exactly that output and exits with the code
  that \<open>command\<close> returned, modulo 65536.
\<close>

theorem reply_roundtrip:
  assumes "server_reply command buf = Some (text1, text2)"
    and "server_args buf = Some args" "command args = (out, code)"
    and "concat (cs @ [d]) = text1" "d \<noteq> []" "\<forall>c \<in> set cs. c \<noteq> [] \<and> last c \<noteq> 0"
  shows "client_loop False [] (cs @ [d, text2]) = (out, Exited (code mod 65536))"
proof -
  have t: "text1 = out @ [0]" "text2 = systemctl_exit_code_magic @ u16_bytes (word_of_nat code)"
    using assms(1-3) by (auto simp: server_reply_def)
  have e: "concat cs @ d = out @ [0]" using assms(4) t by simp
  from arg_cong [OF e, of last] have "last d = 0" using assms(5) by simp
  moreover from arg_cong [OF e, of butlast] have o: "concat cs @ butlast d = out"
    using assms(5) by (simp add: butlast_append)
  moreover have "length d > 1 \<or> butlast d = []" by (cases d) auto
  ultimately have "client_loop False [] (cs @ [d, text2]) = client_loop True out [text2]"
    using assms(5,6) by (auto simp: client_loop_text)
  then show ?thesis
    by (simp add: t systemctl_exit_code_magic_def u16_bytes_def u16_value_bytes unat_of_nat)
qed

theorem reply_roundtrip_witness:
  "client_loop False [] ([[79, 75], [33]] @ [[0], [0, 255, 85, 170, 0, 1, 0]]) = ([79, 75, 33], Exited 1)"
  using reply_roundtrip [of "\<lambda>_. ([79, 75, 33], 1)" "[0, 0]" "[79, 75, 33, 0]" "[0, 255, 85, 170, 0, 1, 0]"
      "[]" "[79, 75, 33]" 1 "[[79, 75], [33]]" "[0]"]
  by (simp add: server_reply_def server_args_def u16_value_def systemctl_exit_code_magic_def u16_bytes_def)

end
