(* ===== verification/UnitFile.thy ===== *)
theory UnitFile
  imports Durations
begin

text \<open>
  Unit files: the \<open>daemondef\<close> of \<open>systemd/daemons/daemon.go\<close> and the parser \<open>loadUnitFile\<close> with
  \<open>parseUnitLine\<close> of \<open>systemd/daemons/unit.go\<close>.

  The eighteen dependency maps of the struct are one field \<open>deps\<close> over the enumeration
  \<open>dep_kind\<close>, the seven command lists one field \<open>execs\<close> over \<open>exec_kind\<close>, the sixteen limit
  strings one field \<open>limits\<close> over \<open>limit_kind\<close>; the other fields are the struct's. A dependency
  map sends a unit name to a pointer: \<open>None\<close> is nil, \<open>Some r\<close> the daemon at address \<open>r\<close>.
\<close>

section \<open>The definition of a daemon\<close>

datatype dep_kind =
    Wants | WantedBy | Requires | RequiredBy | Requisite | RequisiteOf | BindsTo | BoundBy
  | PartOf | ConsistsOf | Upholds | UpheldBy | Conflicts | ConflictedBy | Before | After
  | OnFailure | OnSuccess

text \<open>The kinds are finitely many, so statements about all of them can be evaluated.\<close>

definition dep_kinds :: "dep_kind list" where
  "dep_kinds =
    [Wants, WantedBy, Requires, RequiredBy, Requisite, RequisiteOf,
     BindsTo, BoundBy, PartOf, ConsistsOf, Upholds, UpheldBy,
     Conflicts, ConflictedBy, Before, After, OnFailure, OnSuccess]"

lemma set_dep_kinds: "k \<in> set dep_kinds"
  by (cases k) (simp_all add: dep_kinds_def)

instantiation dep_kind :: enum
begin

definition enum_dep_kind :: "dep_kind list" where "enum_dep_kind = dep_kinds"
definition enum_all_dep_kind :: "(dep_kind \<Rightarrow> bool) \<Rightarrow> bool" where "enum_all_dep_kind P = list_all P dep_kinds"
definition enum_ex_dep_kind :: "(dep_kind \<Rightarrow> bool) \<Rightarrow> bool" where "enum_ex_dep_kind P = list_ex P dep_kinds"

instance
proof
  show "(UNIV :: dep_kind set) = set enum_class.enum"
    using set_dep_kinds by (auto simp: enum_dep_kind_def)
  show "distinct (enum_class.enum :: dep_kind list)"
    by (simp add: enum_dep_kind_def dep_kinds_def)
  show "enum_class.enum_all P \<longleftrightarrow> Ball UNIV P" for P :: "dep_kind \<Rightarrow> bool"
    using set_dep_kinds by (auto simp: enum_all_dep_kind_def list_all_iff)
  show "enum_class.enum_ex P \<longleftrightarrow> Bex UNIV P" for P :: "dep_kind \<Rightarrow> bool"
    using set_dep_kinds by (auto simp: enum_ex_dep_kind_def list_ex_iff)
qed

end

datatype exec_kind =
    ExecStart | ExecStop | ExecStartPre | ExecStartPost | ExecStopPre | ExecStopPost
  | ExecCondition

datatype limit_kind =
    LimitCpu | LimitFsize | LimitData | LimitStack | LimitCore | LimitRss | LimitNoFile | LimitAs
  | LimitNProc | LimitMemLock | LimitLocks | LimitSigPending | LimitMsgQueue | LimitNice
  | LimitRtPrio | LimitRtTime

type_synonym ref = nat
type_synonym depmap = "(string, ref option) gomap"

record daemondef =
  Description :: string
  deps :: "dep_kind \<Rightarrow> depmap"
  StopWhenUnneeded :: bool
  FailureAction :: string
  SuccessAction :: string
  ServiceType :: string
  RemainAfterExit :: bool
  PidFile :: string
  execs :: "exec_kind \<Rightarrow> string list"
  ExecReload :: string
  RestartSleep :: int
  StopTimeout :: int
  Restart :: string
  WorkingDirectory :: string
  User :: string
  Group :: string
  Env :: "string list"
  EnvFile :: "string list"
  limits :: "limit_kind \<Rightarrow> string"

text \<open>The zero value with its maps made, as \<open>loadUnitFile\<close> allocates it.\<close>

definition empty_def :: daemondef where
  "empty_def =
    \<lparr>Description = [], deps = (\<lambda>_. []), StopWhenUnneeded = False, FailureAction = [],
     SuccessAction = [], ServiceType = [], RemainAfterExit = False, PidFile = [],
     execs = (\<lambda>_. []), ExecReload = [], RestartSleep = 0, StopTimeout = 0, Restart = [],
     WorkingDirectory = [], User = [], Group = [], Env = [], EnvFile = [], limits = (\<lambda>_. [])\<rparr>"

section \<open>One line\<close>

definition blanks :: string where "blanks = [CHR 0x0D, CHR 0x0A, CHR 0x09, CHR '' '']"

definition parse_unit_line :: "string \<Rightarrow> string \<times> string" where
  "parse_unit_line line =
     (let split = split_at (CHR ''='') line;
          name = to_upper (trim (hd split) blanks)
      in if length split = 1 then (name, [])
         else let right = join_with ''='' (tl split);
                  tmp = trim right '' ''
              in if has_prefix tmp [CHR 0x22] \<and> has_suffix tmp [CHR 0x22]
                 then (name, trim tmp [CHR 0x22])
                 else if has_prefix tmp [CHR 0x27] \<and> has_suffix tmp [CHR 0x27]
                 then (name, trim tmp [CHR 0x27])
                 else (name, trim_left right '' ''))"

text \<open>The body shared by every dependency key: an empty value clears the map, any other adds
  each space-separated name with a nil pointer.\<close>

definition dep_assign :: "string \<Rightarrow> depmap \<Rightarrow> depmap" where
  "dep_assign val m =
     (if val = [] then [] else fold (\<lambda>v. AList.update v None) (split_at (CHR '' '') val) m)"

definition set_dep :: "dep_kind \<Rightarrow> string \<Rightarrow> daemondef \<Rightarrow> daemondef" where
  "set_dep k val d = d\<lparr>deps := (deps d)(k := dep_assign val (deps d k))\<rparr>"

section \<open>The [Unit] section\<close>

definition unit_dep_keys :: "(string \<times> dep_kind) list" where
  "unit_dep_keys =
    [(''WANTS'', Wants), (''WANTEDBY'', WantedBy), (''REQUIRES'', Requires),
     (''REQUIREDBY'', RequiredBy), (''REQUISITE'', Requisite), (''REQUISITEOF'', RequisiteOf),
     (''BINDSTO'', BindsTo), (''BOUNDBY'', BoundBy), (''PARTOF'', PartOf),
     (''CONSISTSOF'', ConsistsOf), (''UPHOLDS'', Upholds), (''UPHELDBY'', UpheldBy),
     (''CONFLICTS'', Conflicts), (''CONFLICTEDBY'', ConflictedBy), (''BEFORE'', Before),
     (''AFTER'', After), (''ONFAILURE'', OnFailure), (''ONSUCCESS'', OnSuccess)]"

definition unit_key :: "string \<Rightarrow> string \<Rightarrow> daemondef \<Rightarrow> daemondef" where
  "unit_key name val d =
     (if name = ''DESCRIPTION'' then d\<lparr>Description := val\<rparr>
      else case map_of unit_dep_keys name of
        Some k \<Rightarrow> set_dep k val d
      | None \<Rightarrow>
          if name = ''STOPWHENUNNEEDED'' then d\<lparr>StopWhenUnneeded := (to_lower val = ''true'')\<rparr>
          else if name = ''FAILUREACTION'' then d\<lparr>FailureAction := val\<rparr>
          else if name = ''SUCCESSACTION'' then d\<lparr>SuccessAction := val\<rparr>
          else d)"

section \<open>The [Install] section\<close>

definition install_key :: "string \<Rightarrow> string \<Rightarrow> daemondef \<Rightarrow> daemondef" where
  "install_key name val d =
     (if name = ''REQUIREDBY'' then set_dep RequiredBy val d
      else if name = ''WANTEDBY'' then set_dep WantedBy val d
      else if name = ''UPHELDBY'' then set_dep UpheldBy val d
      else d)"

section \<open>The [Service] section\<close>

definition exec_keys :: "(string \<times> exec_kind) list" where
  "exec_keys =
    [(''EXECSTART'', ExecStart), (''EXECSTOP'', ExecStop), (''EXECSTARTPRE'', ExecStartPre),
     (''EXECSTARTPOST'', ExecStartPost), (''EXECSTOPPRE'', ExecStopPre),
     (''EXECSTOPPOST'', ExecStopPost), (''EXECCONDITION'', ExecCondition)]"

definition limit_keys :: "(string \<times> limit_kind) list" where
  "limit_keys =
    [(''LIMITCPU'', LimitCpu), (''LIMITFSIZE'', LimitFsize), (''LIMITDATA'', LimitData),
     (''LIMITSTACK'', LimitStack), (''LIMITCORE'', LimitCore), (''LIMITRSS'', LimitRss),
     (''LIMITNOFILE'', LimitNoFile), (''LIMITAS'', LimitAs), (''LIMITNPROC'', LimitNProc),
     (''LIMITMEMLOCK'', LimitMemLock), (''LIMITLOCKS'', LimitLocks),
     (''LIMITSIGPENDING'', LimitSigPending), (''LIMITMSGQUEUE'', LimitMsgQueue),
     (''LIMITNICE'', LimitNice), (''LIMITRTPRIO'', LimitRtPrio), (''LIMITRTTIME'', LimitRtTime)]"

text \<open>The instance name of a unit \<open>template@instance\<close> replaces \<open>%i\<close> and \<open>%I\<close> in commands.\<close>

definition exec_subst :: "string \<Rightarrow> string \<Rightarrow> string" where
  "exec_subst dname val =
     (if str_contains dname ''@''
      then let inst = split_at (CHR ''@'') dname ! 1
           in replace_all (replace_all val ''%i'' inst) ''%I'' inst
      else val)"

text \<open>A duration that does not parse ends the load; Go has assigned the zero it came with.\<close>

definition service_key ::
    "string \<Rightarrow> string \<Rightarrow> string \<Rightarrow> daemondef \<Rightarrow> daemondef \<times> dur_error option" where
  "service_key dname name val d =
     (case map_of exec_keys name of
        Some k \<Rightarrow> (d\<lparr>execs := (execs d)(k := execs d k @ [exec_subst dname val])\<rparr>, None)
      | None \<Rightarrow>
     (case map_of limit_keys name of
        Some k \<Rightarrow> (d\<lparr>limits := (limits d)(k := val)\<rparr>, None)
      | None \<Rightarrow>
        if name = ''TYPE'' then (d\<lparr>ServiceType := val\<rparr>, None)
        else if name = ''REMAINAFTEREXIT'' then (d\<lparr>RemainAfterExit := (to_lower val = ''true'')\<rparr>, None)
        else if name = ''PIDFILE'' then (d\<lparr>PidFile := val\<rparr>, None)
        else if name = ''EXECRELOAD'' then (d\<lparr>ExecReload := exec_subst dname val\<rparr>, None)
        else if name = ''RESTARTSEC'' then
          (case parse_systemd_duration val of
             Inl e \<Rightarrow> (d\<lparr>RestartSleep := 0\<rparr>, Some e)
           | Inr n \<Rightarrow> (d\<lparr>RestartSleep := n\<rparr>, None))
        else if name = ''TIMEOUTSEC'' \<or> name = ''TIMEOUTSTOPSEC'' then
          (case parse_systemd_duration val of
             Inl e \<Rightarrow> (d\<lparr>StopTimeout := 0\<rparr>, Some e)
           | Inr n \<Rightarrow> (d\<lparr>StopTimeout := n\<rparr>, None))
        else if name = ''RESTART'' then (d\<lparr>Restart := val\<rparr>, None)
        else if name = ''WORKINGDIRECTORY'' then (d\<lparr>WorkingDirectory := val\<rparr>, None)
        else if name = ''USER'' then (d\<lparr>User := val\<rparr>, None)
        else if name = ''GROUP'' then (d\<lparr>Group := val\<rparr>, None)
        else if name = ''ENVIRONMENT'' then (d\<lparr>Env := Env d @ [val]\<rparr>, None)
        else if name = ''ENVIRONMENTFILE'' then (d\<lparr>EnvFile := EnvFile d @ [val]\<rparr>, None)
        else (d, None)))"

section \<open>The line loop\<close>

datatype unit_section = SectionNone | SectionUnit | SectionService | SectionInstall | SectionUnknown

definition section_key ::
    "unit_section \<Rightarrow> string \<Rightarrow> string \<Rightarrow> string \<Rightarrow> daemondef \<Rightarrow> daemondef \<times> dur_error option" where
  "section_key sec dname name val d =
     (case sec of
        SectionUnit \<Rightarrow> (unit_key name val d, None)
      | SectionInstall \<Rightarrow> (install_key name val d, None)
      | SectionService \<Rightarrow> service_key dname name val d
      | _ \<Rightarrow> (d, None))"

text \<open>A section header: the section it opens, \<open>None\<close> if the line is not one.\<close>

definition section_header :: "string \<Rightarrow> unit_section option" where
  "section_header trimmed =
     (if to_upper trimmed = ''[UNIT]'' then Some SectionUnit
      else if to_upper trimmed = ''[SERVICE]'' then Some SectionService
      else if to_upper trimmed = ''[INSTALL]'' then Some SectionInstall
      else if has_prefix trimmed ''['' \<and> has_suffix trimmed '']'' then Some SectionUnknown
      else None)"

record parse_state =
  psec :: unit_section
  pconcat :: string
  pdef :: daemondef

definition is_comment :: "string \<Rightarrow> bool" where
  "is_comment line = (has_prefix (trim line blanks) '';'' \<or> has_prefix (trim line blanks) ''#'')"

definition is_continued :: "string \<Rightarrow> bool" where
  "is_continued line = has_suffix (trim line blanks) [CHR 0x5C]"

definition strip_continuation :: "string \<Rightarrow> string" where
  "strip_continuation line = trim_suffix (trim_right line blanks) [CHR 0x5C]"

definition unit_file_line ::
    "string \<Rightarrow> parse_state \<Rightarrow> string \<Rightarrow> parse_state \<times> dur_error option" where
  "unit_file_line dname st line0 =
     (if is_comment line0 then (st, None)
      else if is_continued line0
      then (st\<lparr>pconcat := pconcat st @ strip_continuation line0 @ '' ''\<rparr>, None)
      else let line = (if pconcat st \<noteq> [] then pconcat st @ strip_continuation line0 else line0);
               st = st\<lparr>pconcat := []\<rparr>
           in case section_header (trim line blanks) of
                Some sec \<Rightarrow> (st\<lparr>psec := sec\<rparr>, None)
              | None \<Rightarrow>
                  (let (name, val) = parse_unit_line line;
                       (d, e) = section_key (psec st) dname name val (pdef st)
                   in (st\<lparr>pdef := d\<rparr>, e)))"

fun unit_file_lines ::
    "string \<Rightarrow> parse_state \<Rightarrow> string list \<Rightarrow> parse_state \<times> dur_error option" where
  "unit_file_lines dname st [] = (st, None)"
| "unit_file_lines dname st (l # ls) =
     (case unit_file_line dname st l of
        (st', Some e) \<Rightarrow> (st', Some e)
      | (st', None) \<Rightarrow> unit_file_lines dname st' ls)"

text \<open>
  \<open>bufio.Scanner\<close> with its default split function and its default limit: lines end at a line
  feed, a final empty piece is no line, one carriage return at the end of a line is dropped, and
  at the first line of more than 65535 bytes scanning stops (the error is only visible through
  \<open>Scanner.Err\<close>, which the code does not call).
\<close>

definition max_line :: int where "max_line = 65535"

definition drop_cr :: "string \<Rightarrow> string" where
  "drop_cr l = trim_suffix l [CHR 0x0D]"

definition scan_lines :: "string \<Rightarrow> string list" where
  "scan_lines content =
     (let raw = split_at (CHR 0x0A) content;
          lines = (if last raw = [] then butlast raw else raw)
      in map drop_cr (takeWhile (\<lambda>l. int (length l) \<le> max_line) lines))"

text \<open>
  \<open>loadUnitFile\<close>: the definition the daemon is left with, and the error. The definition is the
  current one, or a new empty one.
\<close>

definition load_unit_file ::
    "string \<Rightarrow> daemondef option \<Rightarrow> string \<Rightarrow> daemondef \<times> dur_error option" where
  "load_unit_file dname cur content =
     (let d0 = (case cur of None \<Rightarrow> empty_def | Some d \<Rightarrow> d);
          (st, e) = unit_file_lines dname \<lparr>psec = SectionNone, pconcat = [], pdef = d0\<rparr>
                      (scan_lines content)
      in (pdef st, e))"

section \<open>Lemmas\<close>

lemma to_upper_Cons: "c \<noteq> CHR 0xC4 \<Longrightarrow> c \<noteq> CHR 0xC5 \<Longrightarrow> to_upper (c # s) = ascii_upper c # to_upper s"
  by (cases s) auto

definition is_letter :: "char \<Rightarrow> bool" where
  "is_letter c = (let n = of_char c :: nat in (65 \<le> n \<and> n \<le> 90) \<or> (97 \<le> n \<and> n \<le> 122))"

lemma is_letter_neq:
  assumes "is_letter c"
  shows "c \<noteq> CHR ''=''" "c \<noteq> CHR '';''" "c \<noteq> CHR ''#''" "c \<noteq> CHR ''[''" "c \<notin> set blanks"
    "c \<noteq> CHR 0xC4" "c \<noteq> CHR 0xC5" "c \<noteq> CHR 0x0A" "c \<noteq> CHR 0x5C" "ascii_upper c \<noteq> CHR ''[''"
proof -
  show "ascii_upper c \<noteq> CHR ''[''"
  proof
    assume "ascii_upper c = CHR ''[''"
    then have "(of_char (ascii_upper c) :: nat) = 91" by simp
    then show False using assms by (auto simp: is_letter_def ascii_upper_def Let_def split: if_splits)
  qed
qed (use assms in \<open>auto simp: is_letter_def blanks_def\<close>)

lemma split_at_append_gen: "split_at c (p @ c # s) = split_at c p @ split_at c s"
  by (induction p) (auto split: list.splits)

lemma split_unlines:
  "list_all (\<lambda>l. c \<notin> set l) ls \<Longrightarrow> split_at c (concat (map (\<lambda>l. l @ [c]) ls)) = ls @ [[]]"
  by (induction ls) (auto simp: split_at_append)

lemma has_suffix_last: "has_suffix s [c] \<longleftrightarrow> s \<noteq> [] \<and> last s = c"
  by (cases s rule: rev_cases) (auto simp: has_suffix_iff)

lemma scan_unlines:
  assumes "list_all (\<lambda>l. CHR 0x0A \<notin> set l \<and> int (length l) \<le> max_line \<and> (l = [] \<or> last l \<noteq> CHR 0x0D)) ls"
  shows "scan_lines (concat (map (\<lambda>l. l @ [CHR 0x0A]) ls)) = ls"
proof -
  have tw: "takeWhile (\<lambda>l. int (length l) \<le> max_line) ls = ls"
    using assms by (simp add: list_all_iff)
  have cr: "map drop_cr ls = ls"
    using assms by (intro map_idI) (auto simp: list_all_iff drop_cr_def trim_suffix_def has_suffix_last)
  have "list_all (\<lambda>l. CHR 0x0A \<notin> set l) ls" using assms by (auto simp: list_all_iff)
  then show ?thesis by (simp add: scan_lines_def split_unlines tw cr)
qed

subsection \<open>What a document means\<close>

text \<open>
  A document is a list of sections, each a header and its assignments; its meaning is the
  assignments made in order, up to the first error.
\<close>

type_synonym document = "(string \<times> (string \<times> string) list) list"

fun apply_assignments ::
    "unit_section \<Rightarrow> string \<Rightarrow> (string \<times> string) list \<Rightarrow> daemondef \<Rightarrow> daemondef \<times> dur_error option" where
  "apply_assignments sec dname [] d = (d, None)"
| "apply_assignments sec dname ((k, v) # kvs) d =
     (case section_key sec dname (to_upper k) v d of
        (d', Some e) \<Rightarrow> (d', Some e)
      | (d', None) \<Rightarrow> apply_assignments sec dname kvs d')"

fun apply_document :: "string \<Rightarrow> document \<Rightarrow> daemondef \<Rightarrow> daemondef \<times> dur_error option" where
  "apply_document dname [] d = (d, None)"
| "apply_document dname ((h, kvs) # doc) d =
     (case apply_assignments (the (section_header (''['' @ h @ '']''))) dname kvs d of
        (d', Some e) \<Rightarrow> (d', Some e)
      | (d', None) \<Rightarrow> apply_document dname doc d')"

definition document_lines :: "document \<Rightarrow> string list" where
  "document_lines doc =
     concat (map (\<lambda>(h, kvs). (''['' @ h @ '']'') # map (\<lambda>(k, v). k @ ''='' @ v) kvs) doc)"

definition document_text :: "document \<Rightarrow> string" where
  "document_text doc = concat (map (\<lambda>l. l @ [CHR 0x0A]) (document_lines doc))"

text \<open>Keys are ASCII letters; a value has no line feed, starts with neither a space nor a quote
  and ends in neither white space nor a backslash.\<close>

definition plain_assignment :: "string \<times> string \<Rightarrow> bool" where
  "plain_assignment kv = (case kv of (k, v) \<Rightarrow>
     k \<noteq> [] \<and> list_all is_letter k \<and> int (length k + 1 + length v) \<le> max_line \<and> CHR 0x0A \<notin> set v \<and>
     (v = [] \<or> (hd v \<noteq> CHR '' '' \<and> hd v \<noteq> CHR 0x22 \<and> hd v \<noteq> CHR 0x27 \<and>
                last v \<notin> set blanks \<and> last v \<noteq> CHR 0x5C)))"

definition plain_document :: "document \<Rightarrow> bool" where
  "plain_document doc = list_all (\<lambda>(h, kvs). CHR 0x0A \<notin> set h \<and> int (length h + 2) \<le> max_line \<and>
     list_all plain_assignment kvs) doc"

lemma plain_line_ends:
  assumes "plain_assignment (k, v)"
  shows "last (k @ ''='' @ v) \<notin> set blanks" "last (k @ ''='' @ v) \<noteq> CHR 0x5C"
    "trim (k @ ''='' @ v) blanks = k @ ''='' @ v"
proof -
  show l: "last (k @ ''='' @ v) \<notin> set blanks" "last (k @ ''='' @ v) \<noteq> CHR 0x5C"
    using assms by (cases "v = []"; auto simp: plain_assignment_def blanks_def)+
  have "hd k \<notin> set blanks" "k \<noteq> []"
    using assms is_letter_neq (5) by (cases k; auto simp: plain_assignment_def)+
  then show "trim (k @ ''='' @ v) blanks = k @ ''='' @ v" using l by (intro trim_id) auto
qed

lemma parse_plain_line:
  assumes "plain_assignment (k, v)"
  shows "parse_unit_line (k @ ''='' @ v) = (to_upper k, v)"
proof -
  have k: "list_all is_letter k" "k \<noteq> []" using assms by (auto simp: plain_assignment_def)
  then have ne: "CHR ''='' \<notin> set k" using is_letter_neq (1) by (auto simp: list_all_iff)
  have tk: "trim k blanks = k"
    using k is_letter_neq (5) by (intro trim_id) (auto simp: list_all_iff)
  have tv: "trim v '' '' = v" "trim_left v '' '' = v"
    using assms by (auto simp: plain_assignment_def blanks_def intro!: trim_id trim_left_id)
  have "\<not> has_prefix v [CHR 0x22]" "\<not> has_prefix v [CHR 0x27]"
    using assms by (cases v; auto simp: plain_assignment_def)+
  then show ?thesis
    using ne by (simp add: parse_unit_line_def split_at_append join_split [of "CHR ''=''", simplified] tk tv)
qed

lemma assignment_line:
  assumes "plain_assignment (k, v)" "pconcat st = []"
  shows "unit_file_line dname st (k @ ''='' @ v) =
    (let (d, e) = section_key (psec st) dname (to_upper k) v (pdef st) in (st\<lparr>pdef := d\<rparr>, e))"
proof -
  obtain c k' where c: "k = c # k'" "is_letter c" using assms by (cases k) (auto simp: plain_assignment_def)
  note n = is_letter_neq [OF c(2)]
  have "section_header (k @ ''='' @ v) = None"
    using c n by (simp add: section_header_def to_upper_Cons)
  moreover have "\<not> is_comment (k @ ''='' @ v)" "\<not> is_continued (k @ ''='' @ v)"
    using plain_line_ends [OF assms(1)] c n
    by (simp_all add: is_comment_def is_continued_def has_suffix_last)
  moreover have upd: "st\<lparr>pconcat := [], pdef := d\<rparr> = st\<lparr>pdef := d\<rparr>" for d
    using assms(2) by (cases st) simp
  ultimately show ?thesis
    using assms(2) plain_line_ends (3) [OF assms(1)] parse_plain_line [OF assms(1)]
    by (simp add: unit_file_line_def upd)
qed

lemma header_line:
  assumes "pconcat st = []"
  shows "unit_file_line dname st (''['' @ h @ '']'') = (st\<lparr>psec := the (section_header (''['' @ h @ '']''))\<rparr>, None)"
proof -
  let ?l = "''['' @ h @ '']''"
  have t: "trim ?l blanks = ?l" by (rule trim_id) (simp add: blanks_def)
  have "\<not> is_comment ?l" "\<not> is_continued ?l"
    unfolding is_comment_def is_continued_def t by (simp_all add: has_suffix_last)
  moreover have "section_header ?l \<noteq> None"
    by (simp add: section_header_def has_suffix_last)
  moreover have "st\<lparr>pconcat := []\<rparr> = st" using assms by simp
  ultimately show ?thesis using t assms by (auto simp: unit_file_line_def)
qed

lemma assignment_lines:
  assumes "list_all plain_assignment kvs" "pconcat st = []"
  shows "unit_file_lines dname st (map (\<lambda>(k, v). k @ ''='' @ v) kvs @ rest) =
    (case apply_assignments (psec st) dname kvs (pdef st) of
       (d, Some e) \<Rightarrow> (st\<lparr>pdef := d\<rparr>, Some e)
     | (d, None) \<Rightarrow> unit_file_lines dname (st\<lparr>pdef := d\<rparr>) rest)"
  using assms
proof (induction kvs arbitrary: st)
  case (Cons kv kvs)
  obtain k v where kv: "kv = (k, v)" by (cases kv)
  obtain d e where de: "section_key (psec st) dname (to_upper k) v (pdef st) = (d, e)" by fastforce
  show ?case
  proof (cases e)
    case None
    then show ?thesis
      using Cons.IH [of "st\<lparr>pdef := d\<rparr>"] Cons.prems kv de
      by (simp add: assignment_line [simplified] split: prod.splits option.splits)
  qed (use Cons.prems kv de in \<open>simp add: assignment_line [simplified]\<close>)
qed simp

lemma document_lines_run:
  assumes "plain_document doc" "pconcat st = []"
  shows "unit_file_lines dname st (document_lines doc) =
     (let (d, e) = apply_document dname doc (pdef st)
      in (fst (unit_file_lines dname st (document_lines doc)), e))
    \<and> pdef (fst (unit_file_lines dname st (document_lines doc))) = fst (apply_document dname doc (pdef st))"
  using assms
proof (induction doc arbitrary: st)
  case Nil
  then show ?case by (simp add: document_lines_def)
next
  case (Cons s doc)
  obtain h kvs where s: "s = (h, kvs)" by (cases s)
  let ?sec = "the (section_header (''['' @ h @ '']''))"
  obtain d e where de: "apply_assignments ?sec dname kvs (pdef st) = (d, e)" by fastforce
  have "unit_file_lines dname st (document_lines (s # doc)) =
    (case e of Some e \<Rightarrow> (st\<lparr>psec := ?sec, pdef := d\<rparr>, Some e)
     | None \<Rightarrow> unit_file_lines dname (st\<lparr>psec := ?sec, pdef := d\<rparr>) (document_lines doc))"
    using Cons.prems s de header_line [of st dname h]
      assignment_lines [of kvs "st\<lparr>psec := ?sec\<rparr>" dname "document_lines doc"]
    by (auto simp: document_lines_def plain_document_def split: option.splits)
  then show ?case
    using Cons.IH [of "st\<lparr>psec := ?sec, pdef := d\<rparr>"] Cons.prems s de
    by (auto simp: plain_document_def split: option.splits prod.splits)
qed

lemma document_lines_plain:
  "plain_document doc \<Longrightarrow>
   list_all (\<lambda>l. CHR 0x0A \<notin> set l \<and> int (length l) \<le> max_line \<and> (l = [] \<or> last l \<noteq> CHR 0x0D)) (document_lines doc)"
proof -
  assume p: "plain_document doc"
  { fix k v assume kv: "plain_assignment (k, v)"
    from plain_line_ends [OF kv] kv is_letter_neq (8)
    have "CHR 0x0A \<notin> set (k @ ''='' @ v) \<and> int (length (k @ ''='' @ v)) \<le> max_line
        \<and> last (k @ ''='' @ v) \<noteq> CHR 0x0D"
      by (auto simp: plain_assignment_def blanks_def list_all_iff) }
  with p show ?thesis
    by (fastforce simp: document_lines_def plain_document_def list_all_iff)
qed

subsection \<open>Dependency maps stay maps\<close>

definition deps_ok :: "daemondef \<Rightarrow> bool" where
  "deps_ok d = (\<forall>k. gm_ok (deps d k))"

lemma dep_assign_ok: "gm_ok m \<Longrightarrow> gm_ok (dep_assign val m)"
  by (simp add: dep_assign_def gm.ok_fold_put)

lemma set_dep_ok: "deps_ok d \<Longrightarrow> deps_ok (set_dep k val d)"
  by (simp add: deps_ok_def set_dep_def dep_assign_ok)

lemma deps_ok_cong: "deps d' = deps d \<Longrightarrow> deps_ok d' = deps_ok d"
  by (simp add: deps_ok_def)

lemma service_key_deps: "deps (fst (service_key dname name val d)) = deps d"
proof -
  have if_deps: "deps (fst (if c then x else y)) = (if c then deps (fst x) else deps (fst y))"
    for c and x y :: "daemondef \<times> dur_error option" by simp
  show ?thesis
    unfolding service_key_def
    by (cases "map_of exec_keys name"; cases "map_of limit_keys name"; cases "parse_systemd_duration val";
        simp only: if_deps option.case sum.case fst_conv; simp)
qed

lemma unit_key_deps_ok: "deps_ok d \<Longrightarrow> deps_ok (unit_key name val d)"
proof -
  assume d: "deps_ok d"
  have eq: "deps (if c then x else y) = (if c then deps x else deps y)" for c x y by simp
  show ?thesis
  proof (cases "map_of unit_dep_keys name")
    case None
    have "deps (unit_key name val d) = deps d"
      unfolding unit_key_def None option.case by (simp only: eq) simp
    with d show ?thesis by (simp add: deps_ok_def)
  next
    case (Some k)
    have "deps_ok (d\<lparr>Description := val\<rparr>)" using d by (simp add: deps_ok_def)
    then show ?thesis unfolding unit_key_def Some option.case using set_dep_ok [OF d] by simp
  qed
qed

lemma install_key_deps_ok: "deps_ok d \<Longrightarrow> deps_ok (install_key name val d)"
  by (auto simp: install_key_def set_dep_ok)

lemma section_key_deps_ok: "deps_ok d \<Longrightarrow> deps_ok (fst (section_key sec dname name val d))"
  by (cases sec) (simp_all add: section_key_def unit_key_deps_ok install_key_deps_ok
      deps_ok_def [of "fst (service_key _ _ _ _)"] service_key_deps, simp_all add: deps_ok_def)

lemma unit_file_line_deps_ok:
  "deps_ok (pdef st) \<Longrightarrow> deps_ok (pdef (fst (unit_file_line dname st l)))"
  by (simp add: unit_file_line_def Let_def split_beta section_key_deps_ok split: option.split)

lemma unit_file_lines_deps_ok:
  "deps_ok (pdef st) \<Longrightarrow> deps_ok (pdef (fst (unit_file_lines dname st ls)))"
proof (induction ls arbitrary: st)
  case (Cons l ls)
  then show ?case
    using unit_file_line_deps_ok [of st dname l]
    by (cases "unit_file_line dname st l"; cases "snd (unit_file_line dname st l)") auto
qed simp

lemma empty_def_deps_ok: "deps_ok empty_def"
  by (simp add: deps_ok_def empty_def_def)

lemma load_deps_ok:
  "(\<And>d. cur = Some d \<Longrightarrow> deps_ok d) \<Longrightarrow> deps_ok (fst (load_unit_file dname cur content))"
  by (simp add: load_unit_file_def split_beta Let_def unit_file_lines_deps_ok empty_def_deps_ok split: option.split)

section \<open>Properties\<close>

text \<open>
  Loading the text of a document means the document: the assignments are made in order, each in its
  section, and the load stops at the first that has an error, keeping what was assigned before.
\<close>

lemma load_document:
  assumes "plain_document doc"
  shows "load_unit_file dname cur (document_text doc) =
    apply_document dname doc (case cur of None \<Rightarrow> empty_def | Some d \<Rightarrow> d)"
proof -
  let ?d = "case cur of None \<Rightarrow> empty_def | Some d \<Rightarrow> d"
  let ?st = "\<lparr>psec = SectionNone, pconcat = [], pdef = ?d\<rparr>"
  have "scan_lines (document_text doc) = document_lines doc"
    unfolding document_text_def by (rule scan_unlines [OF document_lines_plain [OF assms]])
  then show ?thesis
    using document_lines_run [OF assms, of ?st dname]
    by (auto simp: load_unit_file_def split: prod.splits)
qed

text \<open>
  Comment lines never matter: loading any sequence of lines, from any parser state, gives
  the same definition, the same parser state and the same error as loading it with its comment
  lines removed, also when a comment stands inside a continued line.
\<close>

theorem comments_are_ignored:
  "unit_file_lines dname st ls = unit_file_lines dname st (filter (\<lambda>l. \<not> is_comment l) ls)"
  by (induction ls arbitrary: st) (auto simp: unit_file_line_def split: prod.splits option.splits)

text \<open>
  A continued line and the line after it are one line: the text before the backslash, a
  space, and the text of the second line.
\<close>

theorem continuation_joins_lines:
  assumes "\<not> is_comment a" "is_continued a" "\<not> is_comment b" "\<not> is_continued b" "pconcat st = []"
    and "\<not> is_comment (strip_continuation a @ '' '' @ strip_continuation b)"
    and "\<not> is_continued (strip_continuation a @ '' '' @ strip_continuation b)"
  shows "unit_file_lines dname st (a # b # rest) =
    unit_file_lines dname st ((strip_continuation a @ '' '' @ strip_continuation b) # rest)"
proof -
  have "st\<lparr>pconcat := x\<rparr>\<lparr>pconcat := []\<rparr> = st\<lparr>pconcat := []\<rparr>" for x by simp
  then show ?thesis
    using assms by (simp add: unit_file_line_def [of _ _ a] unit_file_line_def [of _ _ b]
        unit_file_line_def [of _ _ "strip_continuation a @ CHR '' '' # strip_continuation b"])
qed

theorem continuation_joins_lines_witness:
  "unit_file_lines ''a'' \<lparr>psec = SectionUnit, pconcat = [], pdef = empty_def\<rparr>
     [''Description=one '' @ [CHR 0x5C], ''two''] =
   unit_file_lines ''a'' \<lparr>psec = SectionUnit, pconcat = [], pdef = empty_def\<rparr>
     [''Description=one  two'']"
proof -
  have "\<not> is_comment (''Description=one '' @ [CHR 0x5C])" "is_continued (''Description=one '' @ [CHR 0x5C])"
    "\<not> is_comment ''two''" "\<not> is_continued ''two''"
    "strip_continuation (''Description=one '' @ [CHR 0x5C]) @ '' '' @ strip_continuation ''two'' = ''Description=one  two''"
    "\<not> is_comment ''Description=one  two''" "\<not> is_continued ''Description=one  two''"
    by code_simp+
  then show ?thesis
    using continuation_joins_lines [of "''Description=one '' @ [CHR 0x5C]" "''two''"
        "\<lparr>psec = SectionUnit, pconcat = [], pdef = empty_def\<rparr>" "''a''" "[]"] by simp
qed

text \<open>
  C40. A line of more than 65535 bytes ends the load without an error: whatever follows it in the
  file, itself included, is silently lost, because the scanner's error is never asked for.
\<close>

theorem long_line_truncates_file:
  assumes "CHR 0x0A \<notin> set long" "int (length long) > max_line"
  shows "load_unit_file dname cur (before @ [CHR 0x0A] @ long @ [CHR 0x0A] @ after) =
    load_unit_file dname cur (before @ [CHR 0x0A])"
proof -
  let ?P = "\<lambda>l. int (length l) \<le> max_line" and ?b = "split_at (CHR 0x0A) before"
  have "long \<noteq> []" using assms(2) by (auto simp: max_line_def)
  have "split_at (CHR 0x0A) (before @ [CHR 0x0A] @ long @ [CHR 0x0A] @ after) =
      ?b @ long # split_at (CHR 0x0A) after"
    using assms(1) by (simp add: split_at_append_gen split_at_append split_at_none)
  moreover have "split_at (CHR 0x0A) (before @ [CHR 0x0A]) = ?b @ [[]]"
    by (simp add: split_at_append_gen)
  moreover have "takeWhile ?P (?b @ long # xs) = takeWhile ?P ?b" for xs
    using assms(2) by (intro takeWhile_cut) simp
  ultimately show ?thesis
    by (simp add: load_unit_file_def scan_lines_def butlast_append Let_def)
qed

theorem long_line_truncates_file_witness:
  "load_unit_file ''a'' None (''[Unit]'' @ [CHR 0x0A] @ replicate 65536 (CHR ''x'') @ [CHR 0x0A] @ ''Wants=b'') =
   load_unit_file ''a'' None (''[Unit]'' @ [CHR 0x0A])"
  by (rule long_line_truncates_file) (simp_all add: max_line_def)

end
