(* ===== verification/FileSys.thy ===== *)
theory FileSys
  imports GoStrings "HOL-Library.Char_ord" "HOL-Library.List_Lexorder"
begin

text \<open>
  The files the program works on, as the functions of Go's \<open>os\<close> package answer. A file system
  maps absolute paths to nodes; a symbolic link is followed where \<open>os\<close> follows it, at the last
  component of a path. Paths are compared as strings.
\<close>

datatype node = RegFile string | Directory | Symlink string

type_synonym filesys = "(string, node) gomap"

definition fs_lstat :: "filesys \<Rightarrow> string \<Rightarrow> node option" where
  "fs_lstat fs p = map_of fs p"

definition is_symlink :: "filesys \<Rightarrow> string \<Rightarrow> bool" where
  "is_symlink fs p = (case fs_lstat fs p of Some (Symlink _) \<Rightarrow> True | _ \<Rightarrow> False)"

definition fs_readlink :: "filesys \<Rightarrow> string \<Rightarrow> string option" where
  "fs_readlink fs p = (case fs_lstat fs p of Some (Symlink t) \<Rightarrow> Some t | _ \<Rightarrow> None)"

text \<open>The directory part of a path, with its slash, and the last component.\<close>

definition dir_part :: "string \<Rightarrow> string" where
  "dir_part p = rev (dropWhile (\<lambda>c. c \<noteq> CHR ''/'') (rev p))"

definition base_part :: "string \<Rightarrow> string" where
  "base_part p = rev (takeWhile (\<lambda>c. c \<noteq> CHR ''/'') (rev p))"

definition path_join :: "string \<Rightarrow> string \<Rightarrow> string" where
  "path_join a b = a @ ''/'' @ b"

text \<open>Following links gives up after a bounded number of them, as the kernel does (ELOOP).\<close>

fun fs_follow :: "nat \<Rightarrow> filesys \<Rightarrow> string \<Rightarrow> (string \<times> node) option" where
  "fs_follow 0 fs p = None"
| "fs_follow (Suc n) fs p =
     (case fs_lstat fs p of
        None \<Rightarrow> None
      | Some (Symlink t) \<Rightarrow> fs_follow n fs (if has_prefix t ''/'' then t else dir_part p @ t)
      | Some nd \<Rightarrow> Some (p, nd))"

definition fs_resolve :: "filesys \<Rightarrow> string \<Rightarrow> (string \<times> node) option" where
  "fs_resolve fs p = fs_follow 40 fs p"

definition fs_exists :: "filesys \<Rightarrow> string \<Rightarrow> bool" where
  "fs_exists fs p = (fs_resolve fs p \<noteq> None)"

text \<open>\<open>os.ReadFile\<close>, and \<open>os.Open\<close> followed by reading lines; a directory opens but has no lines.\<close>

definition fs_read_file :: "filesys \<Rightarrow> string \<Rightarrow> string option" where
  "fs_read_file fs p = (case fs_resolve fs p of Some (_, RegFile c) \<Rightarrow> Some c | _ \<Rightarrow> None)"

definition fs_open_lines :: "filesys \<Rightarrow> string \<Rightarrow> string option" where
  "fs_open_lines fs p =
     (case fs_resolve fs p of
        Some (_, RegFile c) \<Rightarrow> Some c | Some (_, Directory) \<Rightarrow> Some [] | _ \<Rightarrow> None)"

text \<open>\<open>os.ReadDir\<close>: the entries in name order, each with whether it is a directory itself.\<close>

definition is_dir_node :: "node \<Rightarrow> bool" where
  "is_dir_node nd = (case nd of Directory \<Rightarrow> True | _ \<Rightarrow> False)"

definition child_name :: "string \<Rightarrow> string \<Rightarrow> string option" where
  "child_name d p =
     (if has_prefix p (d @ ''/'') \<and> base_part p = drop (length d + 1) p \<and> base_part p \<noteq> []
      then Some (base_part p) else None)"

definition fs_readdir :: "filesys \<Rightarrow> string \<Rightarrow> (string \<times> bool) list option" where
  "fs_readdir fs p =
     (case fs_resolve fs p of
        Some (d, Directory) \<Rightarrow>
          Some (sort_key fst (List.map_filter
            (\<lambda>(q, nd). map_option (\<lambda>n. (n, is_dir_node nd)) (child_name d q)) fs))
      | _ \<Rightarrow> None)"

section \<open>Changes\<close>

definition fs_write :: "string \<Rightarrow> string \<Rightarrow> filesys \<Rightarrow> filesys" where
  "fs_write p c fs = AList.update p (RegFile c) fs"

definition fs_mkdir :: "string \<Rightarrow> filesys \<Rightarrow> filesys" where
  "fs_mkdir p fs = AList.update p Directory fs"

definition fs_remove :: "string \<Rightarrow> filesys \<Rightarrow> filesys" where
  "fs_remove p fs = AList.delete p fs"

text \<open>\<open>os.Symlink\<close> and \<open>os.Link\<close> fail if the new name exists.\<close>

definition fs_symlink :: "string \<Rightarrow> string \<Rightarrow> filesys \<Rightarrow> filesys option" where
  "fs_symlink target p fs =
     (if fs_lstat fs p = None then Some (AList.update p (Symlink target) fs) else None)"

definition fs_link :: "string \<Rightarrow> string \<Rightarrow> filesys \<Rightarrow> filesys option" where
  "fs_link old p fs =
     (case (fs_lstat fs old, fs_lstat fs p) of
        (Some nd, None) \<Rightarrow> if is_dir_node nd then None else Some (AList.update p nd fs)
      | _ \<Rightarrow> None)"

definition fs_remove_all :: "string \<Rightarrow> filesys \<Rightarrow> filesys" where
  "fs_remove_all p fs = filter (\<lambda>(q, _). q \<noteq> p \<and> \<not> has_prefix q (p @ ''/'')) fs"

end
