(* ===== verification/SysState.thy ===== *)
theory SysState
  imports UnitFile FileSys Common
begin

text \<open>
  The state of the init process: the \<open>daemon\<close> structs of \<open>systemd/daemons/daemon.go\<close> on a heap
  (a \<open>*daemon\<close> is an address), the \<open>daemons\<close> registry of \<open>daemons.go\<close> that names them, the
  files, and what the process does to the outside world as a list of events.

  \<^item> Every \<open>daemon\<close> the program makes has the one \<open>daemons\<close> value as its \<open>parent\<close>, so that
    field is not stored, and \<open>isShuttingDown\<close> reads the registry's flag.
  \<^item> \<open>locks\<close> are the daemons whose mutex the running call chain holds across a call to another
    daemon; taking one of them again blocks for ever.
  \<^item> \<open>ticks\<close> counts the answers asked of the outside world, so that an environment may answer
    the same question differently every time.
\<close>

section \<open>Errors\<close>

datatype phase = PhCondition | PhStartPre | PhStart | PhStartPost | PhStopPre | PhStop | PhStopPost | PhReload

datatype derr =
    ServiceMasked
  | StartShuttingDown string
  | StartAbortedShutdown string
  | StartAbortedStop string
  | CleanupFailed derr
  | EnvFileNotFound string
  | UserNotFound string
  | LogOpenFailed
  | LogFileFailed
  | DepNotRunning string
  | DepFailed string derr
  | ProcessNotStarted
  | ProcessStatus int
  | PhaseFailed phase string string derr
  | StateChangedStopping
  | SigkillApplied
  | WrongState string
  | ReloadFailed derr
  | ExitedWith int
  | ServiceRemoved
  | PathNotFound
  | FileError
  | MaskExists string
  | NotAnInstance
  | DaemonNotFound

section \<open>Daemons\<close>

datatype dstate = StateRunning | StateStopped | StateStarting | StateStopping | StateRestarting

text \<open>An \<open>*exec.Cmd\<close> that was started: the process number, \<open>None\<close> if its \<open>Process\<close> is nil.\<close>

type_synonym cmd = "int option"

record daemon =
  dstate :: dstate
  state_error :: "derr option"
  dname :: string
  def :: "daemondef option"
  olddef :: "daemondef option"
  paths :: "string list"
  is_masked :: bool
  is_manual :: bool
  cmds :: "cmd list"
  pids :: "int list"

text \<open>The command a daemon runs: its line, environment, directory and credentials.\<close>

record command_spec =
  cs_line :: string
  cs_env :: "string list"
  cs_dir :: string
  cs_cred :: "(int \<times> int) option"

text \<open>What is sent to a client: texts, and the texts of errors, of which only the error is kept.\<close>

datatype part = Str string | Err derr

datatype event =
    RanCommand ref phase command_spec      \<comment> \<open>run to its end by \<open>procwait.Run\<close>\<close>
  | Spawned ref command_spec               \<comment> \<open>started and left running\<close>
  | SentSignal ref int string              \<comment> \<open>a signal to a process\<close>
  | LimitWarning string limit_kind string  \<comment> \<open>the log line for a limit that is not set\<close>
  | MonitorForked ref                      \<comment> \<open>\<open>go d.monitorCmds(l)\<close>\<close>
  | NeededForked ref                       \<comment> \<open>\<open>go d.monitorNeeded()\<close>\<close>
  | Sent "part list"                       \<comment> \<open>text written to the client's connection\<close>
  | SignalledSelf                          \<comment> \<open>SIGTERM to the process itself\<close>
  | PoweroffRun                            \<comment> \<open>the command \<open>poweroff\<close>\<close>

record sys =
  heap :: "ref \<Rightarrow> daemon"
  next_ref :: ref
  dlist :: "(string, ref) gomap"
  shutdown :: bool
  fs :: filesys
  locks :: "ref list"
  ticks :: nat
  events :: "event list"

definition new_daemon :: "string \<Rightarrow> string \<Rightarrow> daemon" where
  "new_daemon name path =
    \<lparr>dstate = StateStopped, state_error = None, dname = name, def = None, olddef = None,
     paths = [path], is_masked = False, is_manual = False, cmds = [], pids = []\<rparr>"

text \<open>Updating one daemon in place.\<close>

definition upd_daemon :: "ref \<Rightarrow> (daemon \<Rightarrow> daemon) \<Rightarrow> sys \<Rightarrow> sys" where
  "upd_daemon r f s = s\<lparr>heap := (heap s)(r := f (heap s r))\<rparr>"

definition upd_def :: "ref \<Rightarrow> (daemondef \<Rightarrow> daemondef) \<Rightarrow> sys \<Rightarrow> sys" where
  "upd_def r f s = upd_daemon r (\<lambda>d. d\<lparr>def := map_option f (def d)\<rparr>) s"

definition is_shutting_down :: "sys \<Rightarrow> bool" where
  "is_shutting_down s = shutdown s"

lemma upd_daemon_simps [simp]:
  "heap (upd_daemon r f s) = (heap s)(r := f (heap s r))"
  "next_ref (upd_daemon r f s) = next_ref s"
  "dlist (upd_daemon r f s) = dlist s"
  "shutdown (upd_daemon r f s) = shutdown s"
  "fs (upd_daemon r f s) = fs s"
  "locks (upd_daemon r f s) = locks s"
  "ticks (upd_daemon r f s) = ticks s"
  "events (upd_daemon r f s) = events s"
  by (simp_all add: upd_daemon_def)

lemma upd_def_simps [simp]:
  "heap (upd_def r f s) = (heap s)(r := (heap s r)\<lparr>def := map_option f (def (heap s r))\<rparr>)"
  "next_ref (upd_def r f s) = next_ref s"
  "dlist (upd_def r f s) = dlist s"
  "shutdown (upd_def r f s) = shutdown s"
  "fs (upd_def r f s) = fs s"
  "locks (upd_def r f s) = locks s"
  "ticks (upd_def r f s) = ticks s"
  "events (upd_def r f s) = events s"
  by (simp_all add: upd_def_def)

end
