(* ===== verification/Registry.thy ===== *)
theory Registry
  imports SysState
begin

text \<open>
  \<open>systemd/daemons/daemons.go\<close>: the registry of all daemons. \<open>Reload\<close> is its heart: it reads the
  unit directories again and links the daemons to each other. The phases of the Go function are
  definitions of their own: forgetting the old definitions, reading the unit files, reading the
  drop-ins, dropping the services that are gone, linking.

  Go leaves the order of a \<open>range\<close> over a map open. \<open>Reload\<close> links the daemons in the order of the
  argument \<open>ord\<close>, a function that permutes the registry.
\<close>

section \<open>Reading the unit directories\<close>

record reload =
  rsys :: sys
  processed :: "string list"
  failed :: "string list"

text \<open>Phase 1: every definition is remembered and cleared.\<close>

definition forget_def :: "daemon \<Rightarrow> daemon" where
  "forget_def d = d\<lparr>olddef := def d, def := None\<rparr>"

definition reload_forget :: "sys \<Rightarrow> sys" where
  "reload_forget s = fold (\<lambda>(_, p). upd_daemon p forget_def) (dlist s) s"

definition add_path :: "string \<Rightarrow> daemon \<Rightarrow> daemon" where
  "add_path p d = (if p \<in> set (paths d) then d else d\<lparr>paths := paths d @ [p]\<rparr>)"

text \<open>The name under which a file counts as read already: the target of a symbolic link.\<close>

definition unit_source :: "filesys \<Rightarrow> string \<Rightarrow> string" where
  "unit_source f p = (case fs_readlink f p of Some t \<Rightarrow> t | None \<Rightarrow> p)"

text \<open>
  The part that a unit file and a drop-in share: read the file into the daemon unless it was read
  already. The result says whether the loop goes on to its end (\<open>False\<close> is \<open>continue\<close>).
\<close>

definition load_into :: "ref \<Rightarrow> string \<Rightarrow> reload \<Rightarrow> reload \<times> bool" where
  "load_into p fpath st =
     (let s = rsys st; src = unit_source (fs s) fpath
      in if src \<in> set (processed st) then (st, True)
         else let st = st\<lparr>processed := processed st @ [src]\<rparr>
              in case fs_open_lines (fs s) fpath of
                   None \<Rightarrow> (st, False)
                 | Some content \<Rightarrow>
                     (let d = heap s p
                      in case load_unit_file (dname d) (def d) content of
                           (df, None) \<Rightarrow>
                             (st\<lparr>rsys := upd_daemon p (\<lambda>d. d\<lparr>def := Some df\<rparr>) s\<rparr>, True)
                         | (_, Some _) \<Rightarrow>
                             (st\<lparr>rsys := upd_daemon p (\<lambda>d. d\<lparr>def := olddef d, olddef := None\<rparr>) s,
                                 failed := failed st @ [dname d]\<rparr>, False)))"

text \<open>Phase 2: one entry of a unit directory. A daemon that has no entry yet is allocated, but
  entered only at the end.\<close>

definition alloc_daemon :: "string \<Rightarrow> string \<Rightarrow> sys \<Rightarrow> ref \<times> sys" where
  "alloc_daemon name path s =
     (next_ref s, s\<lparr>heap := (heap s)(next_ref s := new_daemon name path), next_ref := next_ref s + 1\<rparr>)"

definition unit_daemon :: "string \<Rightarrow> string \<Rightarrow> sys \<Rightarrow> ref \<times> sys" where
  "unit_daemon fn fpath s =
     (case map_of (dlist s) fn of
        Some p \<Rightarrow> (p, upd_daemon p (add_path fpath) s)
      | None \<Rightarrow> alloc_daemon fn fpath s)"

text \<open>A symbolic link to \<open>/dev/null\<close> masks the unit, any other file is read.\<close>

definition mask_or_load :: "ref \<Rightarrow> string \<Rightarrow> reload \<Rightarrow> reload \<times> bool" where
  "mask_or_load p fpath st =
     (let masked = (fs_readlink (fs (rsys st)) fpath = Some ''/dev/null'');
          st = st\<lparr>rsys := upd_daemon p (\<lambda>d. d\<lparr>is_masked := masked\<rparr>) (rsys st)\<rparr>
      in if masked then (st, True) else load_into p fpath st)"

definition enter_unit :: "string \<Rightarrow> ref \<Rightarrow> reload \<Rightarrow> reload" where
  "enter_unit fn p st = st\<lparr>rsys := (rsys st)\<lparr>dlist := AList.update fn p (dlist (rsys st))\<rparr>\<rparr>"

definition reload_entry :: "string \<Rightarrow> string \<times> bool \<Rightarrow> reload \<Rightarrow> reload" where
  "reload_entry locs entry st =
     (let (fname, is_dir) = entry; fpath = path_join locs fname
      in if is_dir then st
         else if \<not> has_suffix fpath ''.service'' then st
         else let fn = trim_suffix fname ''.service'';
                  (p, s) = unit_daemon fn fpath (rsys st);
                  (st, continue) = mask_or_load p fpath (st\<lparr>rsys := s\<rparr>)
              in if continue then enter_unit fn p st else st)"

definition reload_dir :: "(string \<Rightarrow> string \<times> bool \<Rightarrow> reload \<Rightarrow> reload) \<Rightarrow> string \<Rightarrow> reload \<Rightarrow> reload" where
  "reload_dir body locs st =
     (case fs_readdir (fs (rsys st)) locs of
        None \<Rightarrow> st
      | Some entries \<Rightarrow> fold (body locs) entries st)"

text \<open>Phase 3: the directories \<open>NAME.service.d\<close> and the \<open>.conf\<close> files in them.\<close>

definition reload_conf :: "ref \<Rightarrow> string \<Rightarrow> string \<times> bool \<Rightarrow> reload \<Rightarrow> reload" where
  "reload_conf p fpath entry st =
     (let (fna, is_dir) = entry; fpatha = path_join fpath fna
      in if is_dir then st
         else if \<not> has_suffix fna ''.conf'' then st
         else fst (load_into p fpatha
                (st\<lparr>rsys := upd_daemon p (add_path fpatha) (rsys st)\<rparr>)))"

definition reload_dropins :: "string \<Rightarrow> string \<times> bool \<Rightarrow> reload \<Rightarrow> reload" where
  "reload_dropins locs entry st =
     (let (fname, is_dir) = entry; fpath = path_join locs fname
      in if \<not> is_dir then st
         else if \<not> has_suffix fpath ''.service.d'' then st
         else let fn = trim_suffix fname ''.service.d''
              in if fn \<in> set (failed st) then st
                 else case map_of (dlist (rsys st)) fn of
                        None \<Rightarrow> st
                      | Some p \<Rightarrow>
                          (case fs_readdir (fs (rsys st)) fpath of
                             None \<Rightarrow> st
                           | Some entries \<Rightarrow> fold (reload_conf p fpath) entries st))"

text \<open>Phase 4: services without a definition that do not run are dropped.\<close>

definition reload_prune :: "sys \<Rightarrow> sys" where
  "reload_prune s =
     (let s = fold (\<lambda>(_, p). upd_daemon p (\<lambda>d. d\<lparr>olddef := None\<rparr>)) (dlist s) s
      in s\<lparr>dlist := filter (\<lambda>(_, p). \<not> (def (heap s p) = None \<and> dstate (heap s p) = StateStopped))
                          (dlist s)\<rparr>)"

definition reload_read :: "sys \<Rightarrow> sys" where
  "reload_read s =
     (let ds = get_systemd_paths (is_symlink (fs s));
          st = fold (reload_dir reload_entry) ds
                 \<lparr>rsys = reload_forget s, processed = [], failed = []\<rparr>;
          st = fold (reload_dir reload_dropins) ds st
      in reload_prune (rsys st))"

section \<open>Linking the daemons\<close>

text \<open>
  For every dependency map of a daemon, in the order of the code: the map whose names are visited,
  the map of the same daemon that gets the pointer, and the map of the other daemon that gets the
  back pointer.
\<close>

definition link_table :: "(dep_kind \<times> dep_kind \<times> dep_kind) list" where
  "link_table =
    [(Requires, Requires, RequiredBy), (RequiredBy, RequiredBy, Requires),
     (Wants, Wants, WantedBy), (WantedBy, WantedBy, Wants),
     (Requisite, Requires, RequisiteOf), (RequisiteOf, RequisiteOf, Requisite),
     (BindsTo, BindsTo, BoundBy), (BoundBy, BoundBy, BindsTo),
     (PartOf, PartOf, ConsistsOf), (ConsistsOf, ConsistsOf, PartOf),
     (Upholds, Upholds, UpheldBy), (UpheldBy, UpheldBy, Upholds),
     (Conflicts, Conflicts, ConflictedBy), (ConflictedBy, ConflictedBy, Conflicts),
     (Before, Before, After), (After, After, Before),
     (OnFailure, OnFailure, OnSuccess), (OnSuccess, OnSuccess, OnFailure)]"

definition put_dep :: "dep_kind \<Rightarrow> string \<Rightarrow> ref option \<Rightarrow> daemondef \<Rightarrow> daemondef" where
  "put_dep k name v d = d\<lparr>deps := (deps d)(k := AList.update name v (deps d k))\<rparr>"

text \<open>One name: the pointer, and the back pointer under the lock of the other daemon; the lock of
  the daemon itself is held.\<close>

definition link_name ::
    "string \<Rightarrow> ref \<Rightarrow> dep_kind \<Rightarrow> dep_kind \<Rightarrow> string \<Rightarrow> sys \<Rightarrow> sys outcome" where
  "link_name r p k back dep s =
     (let s = upd_def p (put_dep k dep (map_of (dlist s) dep)) s
      in case map_of (dlist s) dep of
           None \<Rightarrow> Done s
         | Some q \<Rightarrow>
             if q = p then Crash SelfDeadlock
             else if def (heap s q) = None then Crash NilDeref
             else Done (upd_def q (put_dep back r (Some p)) s))"

fun link_kind :: "string \<Rightarrow> ref \<Rightarrow> dep_kind \<times> dep_kind \<times> dep_kind \<Rightarrow> sys \<Rightarrow> sys outcome" where
  "link_kind r p (from, to, back) s =
     (case def (heap s p) of
        None \<Rightarrow> Crash NilDeref
      | Some d \<Rightarrow> fold_outcome (link_name r p to back) (gm_keys (deps d from)) s)"

definition link_daemon :: "string \<times> ref \<Rightarrow> sys \<Rightarrow> sys outcome" where
  "link_daemon entry s = fold_outcome (link_kind (fst entry) (snd entry)) link_table s"

definition reload_link :: "(string \<times> ref) list \<Rightarrow> sys \<Rightarrow> sys outcome" where
  "reload_link entries s = fold_outcome link_daemon entries s"

section \<open>The methods\<close>

type_synonym range_order = "(string \<times> ref) list \<Rightarrow> (string \<times> ref) list"

definition ds_reload :: "range_order \<Rightarrow> sys \<Rightarrow> sys outcome" where
  "ds_reload ord s = (let s = reload_read s in reload_link (ord (dlist s)) s)"

definition ds_find :: "range_order \<Rightarrow> string \<Rightarrow> sys \<Rightarrow> (ref option \<times> sys) outcome" where
  "ds_find ord name s =
     (case map_of (dlist s) name of
        Some p \<Rightarrow> Done (Some p, s)
      | None \<Rightarrow> andthen (ds_reload ord s) (\<lambda>s. Done (map_of (dlist s) name, s)))"

definition ds_list :: "sys \<Rightarrow> string list" where
  "ds_list s = sort (gm_keys (dlist s))"

end
