(* ===== verification/Linking.thy ===== *)
theory Linking
  imports Registry
begin

text \<open>
  What the last phase of \<open>Reload\<close> (\<open>reload_link\<close> of \<open>Registry\<close>) does to the dependencies. A
  dependency is a triple: a unit, a kind, a name; \<open>dep_val\<close> is the pointer stored there. Every
  write of the linking stores the registry's pointer for the name, so the effect of any part of it
  is a set of places (\<open>written\<close>), and the order of the code's loops only matters where the set of
  names that one loop visits has been changed by another (\<open>table_ok\<close>, \<open>seen\<close>).
\<close>

section \<open>Places written\<close>

fun opposite :: "dep_kind \<Rightarrow> dep_kind" where
  "opposite Wants = WantedBy" | "opposite WantedBy = Wants"
| "opposite Requires = RequiredBy" | "opposite RequiredBy = Requires"
| "opposite Requisite = RequisiteOf" | "opposite RequisiteOf = Requisite"
| "opposite BindsTo = BoundBy" | "opposite BoundBy = BindsTo"
| "opposite PartOf = ConsistsOf" | "opposite ConsistsOf = PartOf"
| "opposite Upholds = UpheldBy" | "opposite UpheldBy = Upholds"
| "opposite Conflicts = ConflictedBy" | "opposite ConflictedBy = Conflicts"
| "opposite Before = After" | "opposite After = Before"
| "opposite OnFailure = OnSuccess" | "opposite OnSuccess = OnFailure"

lemma opposite_opposite [simp]: "opposite (opposite k) = k"
  by (cases k) auto

definition link_target :: "dep_kind \<Rightarrow> dep_kind" where
  "link_target k = (if k = Requisite then Requires else k)"

lemma link_table_iff: "(f, t, b) \<in> set link_table \<longleftrightarrow> t = link_target f \<and> b = opposite f"
  by (cases f) (auto simp: link_table_def link_target_def)

text \<open>The pointer a unit holds for a name.\<close>

definition dep_val :: "sys \<Rightarrow> string \<Rightarrow> dep_kind \<Rightarrow> string \<Rightarrow> ref option option" where
  "dep_val s a k x =
     (case map_of (dlist s) a of None \<Rightarrow> None
      | Some p \<Rightarrow> (case def (heap s p) of None \<Rightarrow> None | Some d \<Rightarrow> map_of (deps d k) x))"

definition refs_ok :: "sys \<Rightarrow> bool" where
  "refs_ok s = (gm_ok (dlist s) \<and> distinct (map snd (dlist s)))"

definition linkable :: "sys \<Rightarrow> bool" where
  "linkable s =
     (\<forall>(a, p) \<in> set (dlist s).
        case def (heap s p) of None \<Rightarrow> False | Some d \<Rightarrow> \<forall>k. a \<notin> set (gm_keys (deps d k)))"

lemma refs_inj:
  assumes "refs_ok s" "map_of (dlist s) a = Some p" "map_of (dlist s) b = Some p"
  shows "a = b"
proof -
  have "inj_on snd (set (dlist s))" using assms(1) by (simp add: refs_ok_def distinct_map)
  moreover have "(a, p) \<in> set (dlist s)" "(b, p) \<in> set (dlist s)"
    using assms(2,3) by (simp_all add: map_of_SomeD)
  ultimately show ?thesis by (metis inj_onD prod.inject snd_conv)
qed

lemma dep_val_at:
  "map_of (dlist s) a = Some p \<Longrightarrow> def (heap s p) = Some d \<Longrightarrow> dep_val s a k x = map_of (deps d k) x"
  by (simp add: dep_val_def)

lemma dep_val_put:
  assumes "refs_ok s" "map_of (dlist s) b = Some q" "def (heap s q) \<noteq> None"
  shows "dep_val (upd_def q (put_dep k x v) s) a k' y =
           (if a = b \<and> k' = k \<and> y = x then Some v else dep_val s a k' y)"
proof (cases "a = b")
  case True
  obtain d where d: "def (heap s q) = Some d" using assms(3) by blast
  have "dep_val (upd_def q (put_dep k x v) s) a k' y = map_of (deps (put_dep k x v d) k') y"
    by (rule dep_val_at [where p = q]) (use True assms(2) d in simp_all)
  moreover have "dep_val s a k' y = map_of (deps d k') y"
    by (rule dep_val_at [where p = q]) (use True assms(2) d in simp_all)
  ultimately show ?thesis using True by (simp add: put_dep_def gm.get_put)
next
  case False
  then have "map_of (dlist s) a \<noteq> Some q" using refs_inj [OF assms(1,2)] by blast
  then have "dep_val (upd_def q (put_dep k x v) s) a k' y = dep_val s a k' y"
    by (cases "map_of (dlist s) a") (simp_all add: dep_val_def)
  with False show ?thesis by simp
qed

text \<open>Every pointer the linking writes is the registry's for that name, so its effect on the
  pointers is a set of places.\<close>

definition written ::
  "(string \<times> dep_kind \<times> string) set \<Rightarrow> (string \<Rightarrow> ref option) \<Rightarrow>
   (string \<Rightarrow> dep_kind \<Rightarrow> string \<Rightarrow> ref option option) \<Rightarrow> string \<Rightarrow> dep_kind \<Rightarrow> string \<Rightarrow> ref option option" where
  "written W L D = (\<lambda>a k x. if (a, k, x) \<in> W then Some (L x) else D a k x)"

lemma written_written [simp]: "written W L (written V L D) = written (V \<union> W) L D"
  by (auto simp: written_def fun_eq_iff)

lemma written_empty [simp]: "written {} L D = D"
  by (simp add: written_def)

definition same_refs :: "sys \<Rightarrow> sys \<Rightarrow> bool" where
  "same_refs s s' = (dlist s' = dlist s \<and> (\<forall>p. def (heap s' p) = None \<longleftrightarrow> def (heap s p) = None))"

lemma same_refs_refl [simp]: "same_refs s s" and
  same_refs_trans: "same_refs s t \<Longrightarrow> same_refs t u \<Longrightarrow> same_refs s u" and
  same_refs_ok: "same_refs s t \<Longrightarrow> refs_ok t = refs_ok s"
  by (auto simp: same_refs_def refs_ok_def)

lemma same_refs_upd_def: "same_refs s (upd_def q f s)"
  by (auto simp: same_refs_def)

lemma dep_val_written:
  assumes "refs_ok s" "map_of (dlist s) b = Some q" "def (heap s q) \<noteq> None" "L x = v"
  shows "dep_val (upd_def q (put_dep k x v) s) = written {(b, k, x)} L (dep_val s)"
  using assms(4) by (intro ext) (simp add: dep_val_put [OF assms(1-3)] written_def)

definition name_places :: "string \<Rightarrow> dep_kind \<Rightarrow> dep_kind \<Rightarrow> (string \<Rightarrow> ref option) \<Rightarrow> string \<Rightarrow> (string \<times> dep_kind \<times> string) set" where
  "name_places r to back L x = {(r, to, x)} \<union> (if L x = None then {} else {(x, back, r)})"

lemma link_name_places:
  assumes "refs_ok s" "map_of (dlist s) r = Some p" "def (heap s p) \<noteq> None"
    "\<And>q. map_of (dlist s) x = Some q \<Longrightarrow> def (heap s q) \<noteq> None" "x \<noteq> r"
  shows "\<exists>s'. link_name r p to back x s = Done s' \<and> same_refs s s' \<and>
           dep_val s' = written (name_places r to back (map_of (dlist s)) x) (map_of (dlist s)) (dep_val s)"
proof (cases "map_of (dlist s) x")
  case None
  then show ?thesis
    using dep_val_written [OF assms(1-3), of "map_of (dlist s)" x None to]
    by (simp add: link_name_def same_refs_upd_def name_places_def)
next
  case (Some q)
  then have "q \<noteq> p" using refs_inj [OF assms(1,2)] assms(5) by blast
  define t where "t = upd_def p (put_dep to x (Some q)) s"
  have t: "same_refs s t" "refs_ok t" "def (heap t q) \<noteq> None" "dlist t = dlist s"
    using assms Some by (simp_all add: t_def same_refs_upd_def same_refs_ok [OF same_refs_upd_def])
  have "link_name r p to back x s = Done (upd_def q (put_dep back r (Some p)) t)"
    using Some \<open>q \<noteq> p\<close> assms(4) by (simp add: link_name_def t_def [symmetric] Let_def) (simp add: t_def)
  moreover have "dep_val t = written {(r, to, x)} (map_of (dlist s)) (dep_val s)"
    unfolding t_def by (rule dep_val_written [OF assms(1-3)]) (simp add: Some)
  moreover have "dep_val (upd_def q (put_dep back r (Some p)) t) =
      written {(x, back, r)} (map_of (dlist s)) (dep_val t)"
    by (rule dep_val_written) (use t Some assms(2) in simp_all)
  moreover have "name_places r to back (map_of (dlist s)) x = {(r, to, x)} \<union> {(x, back, r)}"
    by (simp add: name_places_def Some)
  ultimately show ?thesis using same_refs_trans [OF t(1) same_refs_upd_def] by simp
qed

definition no_self :: "sys \<Rightarrow> bool" where
  "no_self s = (\<forall>a k. dep_val s a k a = None)"

lemma linkable_iff:
  assumes "refs_ok s"
  shows "linkable s \<longleftrightarrow> (\<forall>a p. map_of (dlist s) a = Some p \<longrightarrow> def (heap s p) \<noteq> None) \<and> no_self s"
proof -
  have mem: "(a, p) \<in> set (dlist s) \<longleftrightarrow> map_of (dlist s) a = Some p" for a p
    using assms by (simp add: refs_ok_def)
  show ?thesis
  proof
    assume l: "linkable s"
    have at: "\<exists>d. def (heap s p) = Some d \<and> (\<forall>k. map_of (deps d k) a = None)"
      if "map_of (dlist s) a = Some p" for a p
    proof -
      from l that [folded mem] have "case def (heap s p) of None \<Rightarrow> False
          | Some d \<Rightarrow> \<forall>k. a \<notin> set (gm_keys (deps d k))"
        unfolding linkable_def by blast
      then show ?thesis by (cases "def (heap s p)") (simp_all add: map_of_None_keys)
    qed
    show "(\<forall>a p. map_of (dlist s) a = Some p \<longrightarrow> def (heap s p) \<noteq> None) \<and> no_self s"
      using at by (fastforce simp: no_self_def dep_val_def split: option.split)
  next
    assume r: "(\<forall>a p. map_of (dlist s) a = Some p \<longrightarrow> def (heap s p) \<noteq> None) \<and> no_self s"
    have "\<exists>d. def (heap s p) = Some d \<and> (\<forall>k. a \<notin> set (gm_keys (deps d k)))"
      if "(a, p) \<in> set (dlist s)" for a p
    proof -
      from that r obtain d where d: "map_of (dlist s) a = Some p" "def (heap s p) = Some d"
        unfolding mem by blast
      with r have "map_of (deps d k) a = None" for k
        by (simp add: no_self_def flip: dep_val_at)
      with d show ?thesis by (simp add: map_of_None_keys)
    qed
    then show "linkable s" unfolding linkable_def by (force split: option.split)
  qed
qed


definition ready :: "sys \<Rightarrow> bool" where
  "ready s = (refs_ok s \<and> no_self s \<and> (\<forall>a p. map_of (dlist s) a = Some p \<longrightarrow> def (heap s p) \<noteq> None))"

lemma ready_written:
  assumes "ready s" "same_refs s s'" "dep_val s' = written W L (dep_val s)" "\<And>a k. (a, k, a) \<notin> W"
  shows "ready s'"
  using assms same_refs_ok [OF assms(2)] by (auto simp: ready_def no_self_def written_def same_refs_def)

lemma link_names:
  assumes "ready s" "map_of (dlist s) r = Some p" "r \<notin> set xs"
  shows "\<exists>s'. fold_outcome (link_name r p to back) xs s = Done s' \<and> same_refs s s' \<and>
           dep_val s' = written (\<Union>x\<in>set xs. name_places r to back (map_of (dlist s)) x)
             (map_of (dlist s)) (dep_val s)"
  using assms
proof (induction xs arbitrary: s)
  case Nil
  then show ?case by simp
next
  case (Cons x xs)
  have "\<exists>s'. link_name r p to back x s = Done s' \<and> same_refs s s' \<and>
      dep_val s' = written (name_places r to back (map_of (dlist s)) x) (map_of (dlist s)) (dep_val s)"
    by (rule link_name_places) (use Cons.prems in \<open>auto simp: ready_def\<close>)
  then obtain s1 where s1: "link_name r p to back x s = Done s1" "same_refs s s1"
      "dep_val s1 = written (name_places r to back (map_of (dlist s)) x) (map_of (dlist s)) (dep_val s)"
    by blast
  have dl: "dlist s1 = dlist s" using s1(2) by (simp add: same_refs_def)
  have "ready s1"
    using ready_written [OF Cons.prems(1) s1(2,3)] Cons.prems(3) by (auto simp: name_places_def)
  from Cons.IH [OF this] Cons.prems(2,3) obtain s2 where
    "fold_outcome (link_name r p to back) xs s1 = Done s2" "same_refs s1 s2"
    "dep_val s2 = written (\<Union>x\<in>set xs. name_places r to back (map_of (dlist s)) x)
             (map_of (dlist s)) (dep_val s1)"
    unfolding dl by auto
  then show ?case using s1 same_refs_trans [OF s1(2)] by simp
qed

definition kind_places ::
  "string \<Rightarrow> (string \<Rightarrow> ref option) \<Rightarrow> (dep_kind \<Rightarrow> string \<Rightarrow> bool) \<Rightarrow> dep_kind \<times> dep_kind \<times> dep_kind \<Rightarrow>
   (string \<times> dep_kind \<times> string) set" where
  "kind_places r L N = (\<lambda>(f, t, b). \<Union>x\<in>Collect (N f). name_places r t b L x)"

lemma link_kind_places:
  assumes "ready s" "map_of (dlist s) r = Some p"
  shows "\<exists>s'. link_kind r p e s = Done s' \<and> same_refs s s' \<and>
           dep_val s' = written (kind_places r (map_of (dlist s)) (\<lambda>k x. dep_val s r k x \<noteq> None) e)
             (map_of (dlist s)) (dep_val s)"
proof -
  obtain f t b where e: "e = (f, t, b)" by (cases e)
  obtain d where d: "def (heap s p) = Some d" using assms by (auto simp: ready_def)
  have dv: "dep_val s r f x = map_of (deps d f) x" for x
    using assms(2) d by (rule dep_val_at)
  have keys: "set (gm_keys (deps d f)) = {x. dep_val s r f x \<noteq> None}"
    by (auto simp: dv map_of_None_keys)
  have "r \<notin> set (gm_keys (deps d f))"
    using assms(1) by (simp only: keys) (simp add: ready_def no_self_def)
  from link_names [OF assms this, of t b]
  have "\<exists>s'. fold_outcome (link_name r p t b) (gm_keys (deps d f)) s = Done s' \<and> same_refs s s' \<and>
      dep_val s' = written (kind_places r (map_of (dlist s)) (\<lambda>k x. dep_val s r k x \<noteq> None) e)
        (map_of (dlist s)) (dep_val s)"
    unfolding keys e kind_places_def prod.case .
  moreover have "link_kind r p e s = fold_outcome (link_name r p t b) (gm_keys (deps d f)) s"
    by (simp add: e d)
  ultimately show ?thesis by simp
qed

text \<open>No map that is still to be visited gets a new name by visiting another.\<close>

fun table_ok :: "(dep_kind \<times> dep_kind \<times> dep_kind) list \<Rightarrow> bool" where
  "table_ok [] = True"
| "table_ok ((f, t, b) # es) = ((t = f \<or> t \<notin> fst ` set es) \<and> table_ok es)"

lemma table_ok_link_table: "table_ok link_table"
  by (simp add: link_table_def)

lemma link_kinds:
  assumes "ready s" "map_of (dlist s) r = Some p" "table_ok es"
  shows "\<exists>s'. fold_outcome (link_kind r p) es s = Done s' \<and> same_refs s s' \<and> ready s' \<and>
           dep_val s' = written (\<Union>e\<in>set es. kind_places r (map_of (dlist s)) (\<lambda>k x. dep_val s r k x \<noteq> None) e)
             (map_of (dlist s)) (dep_val s)"
  using assms
proof (induction es arbitrary: s)
  case Nil
  then show ?case by simp
next
  case (Cons e es)
  let ?L = "map_of (dlist s)"
  let ?N = "\<lambda>k x. dep_val s r k x \<noteq> None"
  obtain f t b where e: "e = (f, t, b)" by (cases e)
  from link_kind_places [OF Cons.prems(1,2), of e] obtain s1 where s1:
    "link_kind r p e s = Done s1" "same_refs s s1"
    "dep_val s1 = written (kind_places r ?L ?N e) ?L (dep_val s)" by blast
  have dl: "dlist s1 = dlist s" using s1(2) by (simp add: same_refs_def)
  have self: "\<not> ?N k r" for k using Cons.prems(1) by (simp add: ready_def no_self_def)
  have "ready s1"
    by (rule ready_written [OF Cons.prems(1) s1(2,3)])
      (use self in \<open>auto simp: kind_places_def name_places_def e split: if_splits\<close>)
  from Cons.IH [OF this] Cons.prems(2,3) obtain s2 where s2:
    "fold_outcome (link_kind r p) es s1 = Done s2" "same_refs s1 s2" "ready s2"
    "dep_val s2 = written (\<Union>e\<in>set es. kind_places r ?L (\<lambda>k x. dep_val s1 r k x \<noteq> None) e) ?L (dep_val s1)"
    unfolding dl e by auto
  have same: "(dep_val s1 r k x \<noteq> None) = ?N k x" if "k \<in> fst ` set es" for k x
    using Cons.prems(3) that self
    by (auto simp: s1(3) written_def e kind_places_def name_places_def split: if_splits)
  have "kind_places r ?L (\<lambda>k x. dep_val s1 r k x \<noteq> None) e' = kind_places r ?L ?N e'" if "e' \<in> set es" for e'
  proof -
    obtain f' t' b' where e': "e' = (f', t', b')" by (cases e')
    with that have "f' \<in> fst ` set es" by force
    then have "(\<lambda>x. dep_val s1 r f' x \<noteq> None) = ?N f'" by (intro ext same)
    then show ?thesis by (simp only: e' kind_places_def prod.case)
  qed
  then have eq: "(\<Union>e\<in>set es. kind_places r ?L (\<lambda>k x. dep_val s1 r k x \<noteq> None) e) = (\<Union>e\<in>set es. kind_places r ?L ?N e)"
    by (rule SUP_cong [OF refl])
  have "dep_val s2 = written (\<Union>e\<in>set es. kind_places r ?L ?N e) ?L (written (kind_places r ?L ?N e) ?L (dep_val s))"
    using s2(4) [unfolded eq] unfolding s1(3) .
  then have "dep_val s2 = written (\<Union>e\<in>set (e # es). kind_places r ?L ?N e) ?L (dep_val s)"
    unfolding written_written by (simp only: list.simps UN_insert)
  moreover have "fold_outcome (link_kind r p) (e # es) s = Done s2"
    using s1(1) s2(1) by simp
  ultimately show ?case using same_refs_trans [OF s1(2) s2(2)] s2(3) by blast
qed

definition daemon_places ::
  "string \<Rightarrow> (string \<Rightarrow> ref option) \<Rightarrow> (dep_kind \<Rightarrow> string \<Rightarrow> bool) \<Rightarrow> (string \<times> dep_kind \<times> string) set" where
  "daemon_places r L N =
     {(r, link_target k, x) | k x. N k x} \<union> {(x, opposite k, r) | k x. N k x \<and> L x \<noteq> None}"

lemma daemon_places_table: "(\<Union>e\<in>set link_table. kind_places r L N e) = daemon_places r L N"
proof (intro set_eqI iffI)
  fix w assume "w \<in> (\<Union>e\<in>set link_table. kind_places r L N e)"
  then obtain f t b x where "(f, t, b) \<in> set link_table" "N f x" "w \<in> name_places r t b L x"
    by (auto simp: kind_places_def)
  then show "w \<in> daemon_places r L N"
    by (auto simp: link_table_iff name_places_def daemon_places_def split: if_splits)
next
  fix w assume "w \<in> daemon_places r L N"
  then obtain k x where "N k x" "w \<in> name_places r (link_target k) (opposite k) L x"
    by (auto simp: daemon_places_def name_places_def split: if_splits)
  moreover have "(k, link_target k, opposite k) \<in> set link_table" by (simp add: link_table_iff)
  ultimately show "w \<in> (\<Union>e\<in>set link_table. kind_places r L N e)"
    unfolding kind_places_def by blast
qed

lemma link_daemon_places:
  assumes "ready s" "map_of (dlist s) r = Some p"
  shows "\<exists>s'. link_daemon (r, p) s = Done s' \<and> same_refs s s' \<and> ready s' \<and>
           dep_val s' = written (daemon_places r (map_of (dlist s)) (\<lambda>k x. dep_val s r k x \<noteq> None))
             (map_of (dlist s)) (dep_val s)"
  using link_kinds [OF assms table_ok_link_table]
  unfolding daemon_places_table link_daemon_def by simp


text \<open>\<open>early ns x a\<close>: in the order \<open>ns\<close>, \<open>x\<close> is linked before \<open>a\<close>.\<close>

definition early :: "string list \<Rightarrow> string \<Rightarrow> string \<Rightarrow> bool" where
  "early ns x a = (a \<in> set ns \<and> x \<in> set (takeWhile (\<lambda>e. e \<noteq> a) ns))"

lemma early_snoc_old: "a \<in> set ns \<Longrightarrow> early (ns @ [r]) x a = early ns x a"
  by (auto simp: early_def takeWhile_append)

lemma early_snoc_new: "r \<notin> set ns \<Longrightarrow> early (ns @ [r]) x r = (x \<in> set ns)"
proof -
  assume "r \<notin> set ns"
  then have "takeWhile (\<lambda>e. e \<noteq> r) ns = ns" by (simp add: takeWhile_eq_all_conv) blast
  then show ?thesis by (simp add: early_def takeWhile_append)
qed

lemma early_memb: "early ns x a \<Longrightarrow> a \<in> set ns \<and> x \<in> set ns"
  by (auto simp: early_def dest: set_takeWhileD)

definition seen ::
  "(string \<Rightarrow> dep_kind \<Rightarrow> string \<Rightarrow> bool) \<Rightarrow> string list \<Rightarrow> string \<Rightarrow> dep_kind \<Rightarrow> string \<Rightarrow> bool" where
  "seen N ns a k x = (N a k x \<or> early ns x a \<and> N x (opposite k) a)"

definition all_places ::
  "(string \<Rightarrow> ref option) \<Rightarrow> (string \<Rightarrow> dep_kind \<Rightarrow> string \<Rightarrow> bool) \<Rightarrow> string list \<Rightarrow>
   (string \<times> dep_kind \<times> string) set" where
  "all_places L N ns = (\<Union>a\<in>set ns. daemon_places a L (seen N ns a))"

lemma all_places_snoc:
  assumes "r \<notin> set ns"
  shows "all_places L N (ns @ [r]) = all_places L N ns \<union> daemon_places r L (seen N (ns @ [r]) r)"
proof -
  have "seen N (ns @ [r]) a = seen N ns a" if "a \<in> set ns" for a
    using that by (simp add: seen_def fun_eq_iff early_snoc_old)
  then have "(\<Union>a\<in>set ns. daemon_places a L (seen N (ns @ [r]) a)) = all_places L N ns"
    unfolding all_places_def by (intro SUP_cong) simp_all
  then show ?thesis
    by (simp add: all_places_def Un_commute)
qed

lemma seen_new:
  assumes "r \<notin> set ns" "L r \<noteq> None"
  shows "seen N (ns @ [r]) r k x \<longleftrightarrow> N r k x \<or> (r, k, x) \<in> all_places L N ns"
proof -
  have "(r, k, x) \<in> all_places L N ns \<longleftrightarrow> x \<in> set ns \<and> seen N ns x (opposite k) r"
  proof
    assume "(r, k, x) \<in> all_places L N ns"
    then obtain a where a: "a \<in> set ns" "(r, k, x) \<in> daemon_places a L (seen N ns a)"
      unfolding all_places_def by blast
    with assms(1) have "a \<noteq> r" by blast
    with a show "x \<in> set ns \<and> seen N ns x (opposite k) r"
      unfolding daemon_places_def by auto
  next
    assume "x \<in> set ns \<and> seen N ns x (opposite k) r"
    moreover from this have "(r, opposite (opposite k), x) \<in> daemon_places x L (seen N ns x)"
      using assms(2) unfolding daemon_places_def by blast
    ultimately show "(r, k, x) \<in> all_places L N ns"
      unfolding all_places_def by auto
  qed
  moreover have "\<not> early ns r x" using assms(1) early_memb by blast
  ultimately show ?thesis
    unfolding seen_def early_snoc_new [OF assms(1)] by auto
qed

lemma reload_link_places:
  assumes "ready s" "distinct (map fst es)" "set es \<subseteq> set (dlist s)"
  shows "\<exists>s'. reload_link es s = Done s' \<and> same_refs s s' \<and> ready s' \<and>
           dep_val s' = written (all_places (map_of (dlist s)) (\<lambda>a k x. dep_val s a k x \<noteq> None) (map fst es))
             (map_of (dlist s)) (dep_val s)"
  using assms(2,3)
proof (induction es rule: rev_induct)
  case Nil
  then show ?case using assms(1) by (simp add: reload_link_def all_places_def)
next
  case (snoc e es)
  let ?L = "map_of (dlist s)"
  let ?N = "\<lambda>a k x. dep_val s a k x \<noteq> None"
  obtain r p where e: "e = (r, p)" by (cases e)
  have rp: "?L r = Some p" using snoc.prems assms(1) e by (simp add: ready_def refs_ok_def)
  have r: "r \<notin> set (map fst es)" using snoc.prems e by simp
  from snoc obtain s1 where s1: "reload_link es s = Done s1" "same_refs s s1" "ready s1"
    "dep_val s1 = written (all_places ?L ?N (map fst es)) ?L (dep_val s)" by auto
  have dl: "dlist s1 = dlist s" using s1(2) by (simp add: same_refs_def)
  from link_daemon_places [OF s1(3), of r p] rp obtain s2 where s2:
    "link_daemon (r, p) s1 = Done s2" "same_refs s1 s2" "ready s2"
    "dep_val s2 = written (daemon_places r ?L (\<lambda>k x. dep_val s1 r k x \<noteq> None)) ?L (dep_val s1)"
    unfolding dl by blast
  have "?L r \<noteq> None" using rp by simp
  from seen_new [of r "map fst es" ?L ?N, OF r this]
  have "(\<lambda>k x. dep_val s1 r k x \<noteq> None) = seen ?N (map fst es @ [r]) r"
    by (intro ext) (simp add: s1(4) written_def)
  with s2(4) have "dep_val s2 = written (daemon_places r ?L (seen ?N (map fst es @ [r]) r)) ?L (dep_val s1)"
    by simp
  then have "dep_val s2 = written (all_places ?L ?N (map fst (es @ [e]))) ?L (dep_val s)"
    using all_places_snoc [OF r, of ?L ?N] by (simp add: s1(4) e)
  moreover have "reload_link (es @ [e]) s = Done s2"
    using s1(1) s2(1) by (simp add: reload_link_def fold_outcome_append e)
  ultimately show ?case using same_refs_trans [OF s1(2) s2(2)] s2(3) by blast
qed


subsection \<open>Linking that returns\<close>

definition grows :: "sys \<Rightarrow> sys \<Rightarrow> bool" where
  "grows s s' = (same_refs s s' \<and> (\<forall>a k x. dep_val s a k x \<noteq> None \<longrightarrow> dep_val s' a k x \<noteq> None))"

lemma grows_refl: "grows s s" and grows_trans: "grows s t \<Longrightarrow> grows t u \<Longrightarrow> grows s u"
  unfolding grows_def using same_refs_trans by auto

lemma grows_dlist: "grows s t \<Longrightarrow> dlist t = dlist s"
  and grows_def_back: "grows s t \<Longrightarrow> def (heap t p) \<noteq> None \<Longrightarrow> def (heap s p) \<noteq> None"
  and grows_val_back: "grows s t \<Longrightarrow> dep_val t a k x = None \<Longrightarrow> dep_val s a k x = None"
  unfolding grows_def same_refs_def by metis+

lemma grows_put: "grows s (upd_def q (put_dep k x v) s)"
proof -
  have "dep_val (upd_def q (put_dep k x v) s) a k' y \<noteq> None" if "dep_val s a k' y \<noteq> None" for a k' y
  proof -
    from that obtain p d where pd: "map_of (dlist s) a = Some p" "def (heap s p) = Some d"
      and "map_of (deps d k') y \<noteq> None"
      by (auto simp: dep_val_def split: option.splits)
    then show ?thesis by (auto simp: dep_val_def put_dep_def gm.get_put)
  qed
  then show ?thesis by (simp add: grows_def same_refs_upd_def)
qed

lemma link_name_grows:
  "link_name r p k back x s = Done s' \<Longrightarrow> grows s s' \<and> map_of (dlist s) x \<noteq> Some p"
  by (auto simp: link_name_def Let_def intro: grows_put grows_trans [OF grows_put grows_put]
      split: option.splits if_splits)

interpretation grows: frame grows
  by unfold_locales (blast intro: grows_refl grows_trans)+

lemmas fold_grows = grows.outcome_frame grows.outcome_frame_step

lemma link_kind_grows:
  assumes "link_kind r p (f, t, b) s = Done s'"
  shows "grows s s'" and "\<exists>d. def (heap s p) = Some d \<and> (map_of (dlist s) r = Some p \<longrightarrow> map_of (deps d f) r = None)"
proof -
  from assms obtain d where d: "def (heap s p) = Some d"
    "fold_outcome (link_name r p t b) (gm_keys (deps d f)) s = Done s'"
    by (auto split: option.splits)
  note g = fold_grows [of "gm_keys (deps d f)" "link_name r p t b", OF _ d(2)]
  show "grows s s'" using g(1) link_name_grows by blast
  have "map_of (dlist s) r \<noteq> Some p" if r: "r \<in> set (gm_keys (deps d f))"
  proof -
    from g(2) [OF _ r] link_name_grows obtain u u' where
      "grows s u" "link_name r p t b r u = Done u'" by blast
    with link_name_grows [OF this(2)] show ?thesis by (auto simp: grows_def same_refs_def)
  qed
  with d(1) show "\<exists>d. def (heap s p) = Some d \<and> (map_of (dlist s) r = Some p \<longrightarrow> map_of (deps d f) r = None)"
    by (auto simp: map_of_None_keys)
qed

lemma link_daemon_grows:
  assumes "link_daemon (r, p) s = Done s'"
  shows "grows s s'" and "map_of (dlist s) r = Some p \<Longrightarrow> def (heap s p) \<noteq> None \<and> dep_val s r k r = None"
proof -
  have step: "grows s s'" if "link_kind r p e s = Done s'" for e s s'
    using link_kind_grows(1) that by (cases e) blast
  have run: "fold_outcome (link_kind r p) link_table s = Done s'" using assms by (simp add: link_daemon_def)
  show "grows s s'" using fold_grows(1) [OF _ run] step by blast
  assume rp: "map_of (dlist s) r = Some p"
  have "(k, link_target k, opposite k) \<in> set link_table" by (simp add: link_table_iff)
  from fold_grows(2) [OF _ run this] step obtain t t' where
    t: "grows s t" "link_kind r p (k, link_target k, opposite k) t = Done t'" by blast
  from link_kind_grows(2) [OF t(2)] rp have "def (heap t p) \<noteq> None" "dep_val t r k r = None"
    by (auto simp: grows_dlist [OF t(1)] dep_val_def)
  then show "def (heap s p) \<noteq> None \<and> dep_val s r k r = None"
    using grows_def_back [OF t(1)] grows_val_back [OF t(1)] by blast
qed

lemma reload_link_linkable:
  assumes "refs_ok s" "set (dlist s) \<subseteq> set es" "reload_link es s = Done s'"
  shows "linkable s"
proof -
  have step: "grows s s'" if "link_daemon e s = Done s'" for e s s'
    using link_daemon_grows(1) that by (cases e) blast
  have ok: "def (heap s p) \<noteq> None \<and> dep_val s r k r = None" if rp: "map_of (dlist s) r = Some p" for r p k
  proof -
    have "(r, p) \<in> set es" using rp assms(2) by (auto dest: map_of_SomeD)
    from fold_grows(2) [OF _ assms(3) [unfolded reload_link_def] this] step obtain t t' where
      t: "grows s t" "link_daemon (r, p) t = Done t'" by blast
    have "map_of (dlist t) r = Some p" using rp by (simp add: grows_dlist [OF t(1)])
    from link_daemon_grows(2) [OF t(2) this, of k] show ?thesis
      using grows_def_back [OF t(1)] grows_val_back [OF t(1)] by blast
  qed
  have "dep_val s a k a = None" for a k
    using ok [of a _ k] by (cases "map_of (dlist s) a") (simp_all add: dep_val_def)
  with ok show ?thesis unfolding linkable_iff [OF assms(1)] no_self_def by blast
qed

subsection \<open>Results\<close>

definition depends :: "sys \<Rightarrow> string \<Rightarrow> dep_kind \<Rightarrow> string \<Rightarrow> bool" where
  "depends s a k x = (dep_val s a k x \<noteq> None)"

definition linked :: "sys \<Rightarrow> string \<Rightarrow> bool" where
  "linked s a = (map_of (dlist s) a \<noteq> None)"

text \<open>An order of the registry in which \<open>Reload\<close> may link: every entry once.\<close>

definition link_order :: "(string \<times> ref) list \<Rightarrow> sys \<Rightarrow> bool" where
  "link_order es s = (refs_ok s \<and> distinct es \<and> set es = set (dlist s))"

lemma link_order_ready:
  assumes "link_order es s" "linkable s"
  shows "ready s" "distinct (map fst es)" "set es \<subseteq> set (dlist s)" "set (map fst es) = set (gm_keys (dlist s))"
proof -
  show "ready s" using assms linkable_iff by (auto simp: link_order_def ready_def)
  have "inj_on fst (set (dlist s))" using assms by (simp add: link_order_def refs_ok_def distinct_map)
  with assms show "distinct (map fst es)" by (simp add: link_order_def distinct_map)
  from assms show "set es \<subseteq> set (dlist s)" "set (map fst es) = set (gm_keys (dlist s))"
    by (auto simp: link_order_def)
qed

lemma depends_linked: "depends s a k x \<Longrightarrow> linked s a"
  by (auto simp: depends_def dep_val_def linked_def split: option.splits)

lemma places_iff:
  assumes "\<And>a k x. S a k x \<Longrightarrow> a \<in> A"
  shows "(a, k, x) \<in> (\<Union>r\<in>A. daemon_places r L (S r)) \<longleftrightarrow>
     (k \<noteq> Requisite \<and> S a k x) \<or> (k = Requires \<and> S a Requisite x) \<or> (L a \<noteq> None \<and> S x (opposite k) a)"
proof -
  have opp: "k = opposite k' \<longleftrightarrow> k' = opposite k" for k' by auto
  have "(a, k, x) \<in> daemon_places r L (S r) \<longleftrightarrow>
      (r = a \<and> (\<exists>k'. k = link_target k' \<and> S a k' x)) \<or> (r = x \<and> L a \<noteq> None \<and> S x (opposite k) a)" for r
    unfolding daemon_places_def using opp by auto
  moreover have "(\<exists>k'. k = link_target k' \<and> S a k' x) \<longleftrightarrow> (k \<noteq> Requisite \<and> S a k x) \<or> (k = Requires \<and> S a Requisite x)"
    by (auto simp: link_target_def)
  ultimately have "(a, k, x) \<in> (\<Union>r\<in>A. daemon_places r L (S r)) \<longleftrightarrow>
      (a \<in> A \<and> ((k \<noteq> Requisite \<and> S a k x) \<or> (k = Requires \<and> S a Requisite x))) \<or>
      (x \<in> A \<and> L a \<noteq> None \<and> S x (opposite k) a)"
    unfolding UN_iff by metis
  also have "\<dots> \<longleftrightarrow> (k \<noteq> Requisite \<and> S a k x) \<or> (k = Requires \<and> S a Requisite x) \<or> (L a \<noteq> None \<and> S x (opposite k) a)"
    using assms [of a k x] assms [of a Requisite x] assms [of x "opposite k" a] by argo
  finally show ?thesis .
qed

lemma link_places:
  assumes "link_order es s" "linkable s"
  shows "(a, k, x) \<in> all_places (map_of (dlist s)) (\<lambda>a k x. dep_val s a k x \<noteq> None) (map fst es) \<longleftrightarrow>
     (k \<noteq> Requisite \<and> (depends s a k x \<or> (early (map fst es) x a \<and> depends s x (opposite k) a))) \<or>
     (k = Requires \<and> (depends s a Requisite x \<or> early (map fst es) x a \<and> depends s x RequisiteOf a)) \<or>
     (linked s a \<and> (depends s x (opposite k) a \<or> early (map fst es) a x \<and> depends s a k x))"
proof -
  let ?ns = "map fst es" and ?N = "\<lambda>a k x. dep_val s a k x \<noteq> None"
  have ns: "a \<in> set ?ns \<longleftrightarrow> linked s a" for a
    using link_order_ready(4) [OF assms] map_of_None_keys [of "dlist s" a] by (auto simp: linked_def)
  have seen: "seen ?N ?ns a k x \<longleftrightarrow> depends s a k x \<or> early ?ns x a \<and> depends s x (opposite k) a" for a k x
    by (simp add: seen_def depends_def)
  have "seen ?N ?ns a k x \<Longrightarrow> a \<in> set ?ns" for a k x
    using seen depends_linked early_memb ns by blast
  from places_iff [of "seen ?N ?ns", OF this, where L = "map_of (dlist s)"] show ?thesis
    unfolding all_places_def seen linked_def by simp
qed

lemma link_runs:
  assumes "link_order es s" "linkable s"
  shows "\<exists>s'. reload_link es s = Done s' \<and> same_refs s s' \<and>
    dep_val s' = written (all_places (map_of (dlist s)) (\<lambda>a k x. dep_val s a k x \<noteq> None) (map fst es))
      (map_of (dlist s)) (dep_val s)"
  using reload_link_places [OF link_order_ready(1-3) [OF assms]] by blast

text \<open>
  C16. Linking makes the dependencies symmetric: whatever the order, a unit ends up with exactly
  its own dependencies and the reverse of those that other units declare on it, each kind with its
  opposite. The one exception is \<open>Requires\<close>, which also gets every name of \<open>Requisite\<close>.
\<close>

theorem link_relations:
  assumes "link_order es s" "linkable s"
  shows "\<exists>s'. reload_link es s = Done s' \<and> dlist s' = dlist s \<and>
    (\<forall>a k x. depends s' a k x \<longleftrightarrow>
       depends s a k x \<or> (linked s a \<and> depends s x (opposite k) a) \<or>
       (k = Requires \<and> (depends s a Requisite x \<or>
                          early (map fst es) x a \<and> depends s x RequisiteOf a)))"
proof -
  obtain s' where s': "reload_link es s = Done s'" "same_refs s s'"
    "dep_val s' = written (all_places (map_of (dlist s)) (\<lambda>a k x. dep_val s a k x \<noteq> None) (map fst es))
      (map_of (dlist s)) (dep_val s)"
    using link_runs [OF assms] by blast
  have "depends s' a k x \<longleftrightarrow>
       depends s a k x \<or> (linked s a \<and> depends s x (opposite k) a) \<or>
       (k = Requires \<and> (depends s a Requisite x \<or>
                          early (map fst es) x a \<and> depends s x RequisiteOf a))" for a k x
  proof -
    have "depends s' a k x \<longleftrightarrow> depends s a k x \<or>
        (a, k, x) \<in> all_places (map_of (dlist s)) (\<lambda>a k x. dep_val s a k x \<noteq> None) (map fst es)"
      by (simp add: depends_def s'(3) written_def)
    moreover have "early (map fst es) x a \<Longrightarrow> linked s a"
      using early_memb link_order_ready(4) [OF assms] map_of_None_keys [of "dlist s" a]
      by (metis linked_def)
    ultimately show ?thesis unfolding link_places [OF assms] by blast
  qed
  with s' show ?thesis by (auto simp: same_refs_def)
qed

text \<open>
  C17. Linking makes the pointers: every dependency of every kind but \<open>Requisite\<close> points to the
  unit the registry holds under that name, or is nil if there is none. A \<open>Requisite\<close> pointer is
  set only as the back pointer of the other unit: it keeps its old value, nil after a fresh load,
  unless that unit is linked after this one or names this one in \<open>RequisiteOf\<close>.
\<close>

theorem link_pointers:
  assumes "link_order es s" "linkable s"
  shows "\<exists>s'. reload_link es s = Done s' \<and>
    (\<forall>a k x. k \<noteq> Requisite \<and> depends s' a k x \<longrightarrow> dep_val s' a k x = Some (map_of (dlist s) x)) \<and>
    (\<forall>a x. dep_val s' a Requisite x =
       (if linked s a \<and> (depends s x RequisiteOf a \<or> early (map fst es) a x \<and> depends s a Requisite x)
        then Some (map_of (dlist s) x) else dep_val s a Requisite x))"
proof -
  obtain s' where s': "reload_link es s = Done s'" "same_refs s s'"
    "dep_val s' = written (all_places (map_of (dlist s)) (\<lambda>a k x. dep_val s a k x \<noteq> None) (map fst es))
      (map_of (dlist s)) (dep_val s)"
    using link_runs [OF assms] by blast
  let ?P = "all_places (map_of (dlist s)) (\<lambda>a k x. dep_val s a k x \<noteq> None) (map fst es)"
  have "dep_val s' a k x = Some (map_of (dlist s) x)" if "k \<noteq> Requisite" "depends s' a k x" for a k x
  proof -
    have "(a, k, x) \<in> ?P"
    proof (rule ccontr)
      assume no: "(a, k, x) \<notin> ?P"
      with that(2) have "depends s a k x" by (simp add: depends_def s'(3) written_def)
      with no that(1) show False using link_places [OF assms, of a k x] by blast
    qed
    then show ?thesis by (simp add: s'(3) written_def)
  qed
  moreover have "dep_val s' a Requisite x =
       (if linked s a \<and> (depends s x RequisiteOf a \<or> early (map fst es) a x \<and> depends s a Requisite x)
        then Some (map_of (dlist s) x) else dep_val s a Requisite x)" for a x
    using link_places [OF assms, of a Requisite x] by (simp add: s'(3) written_def)
  ultimately show ?thesis using s'(1) by blast
qed

text \<open>
  Linking returns exactly if every listed unit has a definition and none names itself in any
  of its dependencies; otherwise \<open>Reload\<close> panics or blocks on the unit's own lock, with the
  registry locked.
\<close>

lemma link_returns_iff:
  assumes "link_order es s"
  shows "(\<exists>s'. reload_link es s = Done s') \<longleftrightarrow> linkable s"
  using assms link_runs [OF assms] reload_link_linkable [of s es] by (auto simp: link_order_def)

end
