(* ===== verification/RegistryInv.thy ===== *)
theory RegistryInv
  imports Linking
begin

text \<open>
  The registry is well formed at all times: every entry is filed under its daemon's name, no two
  entries share a daemon, and all dependency maps are maps (\<open>registry_ok\<close>). Every phase of
  \<open>Reload\<close> keeps that; \<open>keeps\<close> is the frame they share. With the results on linking this gives
  when \<open>Reload\<close> returns and what it leaves, and the concrete unit directories at the end show what
  it does with masks, with names that carry their suffix, and with a unit in two directories.
\<close>

section \<open>Reading keeps the registry well formed\<close>

definition daemon_ok :: "daemon \<Rightarrow> bool" where
  "daemon_ok d = (pred_option deps_ok (def d) \<and> pred_option deps_ok (olddef d))"

definition registry_ok :: "sys \<Rightarrow> bool" where
  "registry_ok s =
     (gm_ok (dlist s) \<and>
      (\<forall>(a, p) \<in> set (dlist s). p < next_ref s \<and> dname (heap s p) = a) \<and>
      (\<forall>p. daemon_ok (heap s p)))"

lemma registry_okD:
  assumes "registry_ok s"
  shows "gm_ok (dlist s)" and "(a, p) \<in> set (dlist s) \<Longrightarrow> p < next_ref s \<and> dname (heap s p) = a"
    and "daemon_ok (heap s p)"
  using assms by (auto simp: registry_ok_def)

lemma registry_okI:
  assumes "gm_ok (dlist s)" "\<And>a p. (a, p) \<in> set (dlist s) \<Longrightarrow> p < next_ref s \<and> dname (heap s p) = a"
    "\<And>p. daemon_ok (heap s p)"
  shows "registry_ok s"
  using assms by (auto simp: registry_ok_def)

lemma registry_ok_refs: "registry_ok s \<Longrightarrow> refs_ok s"
proof -
  assume ok: "registry_ok s"
  have "inj_on snd (set (dlist s))"
  proof (rule inj_onI)
    fix e e' assume "e \<in> set (dlist s)" "e' \<in> set (dlist s)" "snd e = snd e'"
    with registry_okD(2) [OF ok, of "fst e" "snd e"] registry_okD(2) [OF ok, of "fst e'" "snd e'"]
    show "e = e'" by (metis prod.collapse)
  qed
  with ok show ?thesis by (simp add: refs_ok_def registry_ok_def distinct_map)
qed

lemma registry_ok_upd:
  assumes "registry_ok s" "dname (f (heap s p)) = dname (heap s p)"
    "daemon_ok (heap s p) \<Longrightarrow> daemon_ok (f (heap s p))"
  shows "registry_ok (upd_daemon p f s)"
proof -
  have "q < next_ref s \<and> dname (heap (upd_daemon p f s) q) = a" if "(a, q) \<in> set (dlist s)" for a q
    using registry_okD(2) [OF assms(1) that] assms(2) by (cases "q = p") simp_all
  moreover have "daemon_ok (heap (upd_daemon p f s) q)" for q
    using registry_okD(3) [OF assms(1)] assms(3) by simp
  ultimately show ?thesis using registry_okD(1) [OF assms(1)] by (intro registry_okI) simp_all
qed

text \<open>An operation that keeps the registry well formed and changes neither its entries nor the
  files.\<close>

definition keeps :: "sys \<Rightarrow> sys \<Rightarrow> bool" where
  "keeps s s' = ((registry_ok s \<longrightarrow> registry_ok s') \<and> dlist s' = dlist s \<and> fs s' = fs s \<and>
     next_ref s' = next_ref s \<and> (\<forall>p. dname (heap s' p) = dname (heap s p)))"

lemma keeps_refl: "keeps s s" and keeps_trans: "keeps s t \<Longrightarrow> keeps t u \<Longrightarrow> keeps s u"
  by (auto simp: keeps_def)

interpretation keeps: frame keeps
  by unfold_locales (blast intro: keeps_refl keeps_trans)+

lemma keeps_upd:
  assumes "dname (f (heap s p)) = dname (heap s p)" "daemon_ok (heap s p) \<Longrightarrow> daemon_ok (f (heap s p))"
  shows "keeps s (upd_daemon p f s)"
  using registry_ok_upd [of s f p] assms by (auto simp: keeps_def)

lemma keeps_fold_upd:
  assumes "\<And>d. dname (f d) = dname d" "\<And>d. daemon_ok d \<Longrightarrow> daemon_ok (f d)"
  shows "keeps s (fold (\<lambda>(a, p). upd_daemon p f) es s)"
  by (rule keeps.fold_frame) (auto intro: keeps_upd assms)

lemma reload_forget_keeps: "keeps s (reload_forget s)"
  unfolding reload_forget_def by (rule keeps_fold_upd) (simp_all add: forget_def_def daemon_ok_def)

lemma add_path_ok: "dname (add_path p d) = dname d" "daemon_ok (add_path p d) = daemon_ok d"
  "def (add_path p d) = def d" "olddef (add_path p d) = olddef d" "dstate (add_path p d) = dstate d"
  "is_masked (add_path p d) = is_masked d"
  by (simp_all add: add_path_def daemon_ok_def)

text \<open>The four ways through \<open>load_into\<close>.\<close>

lemma load_into_again:
  "unit_source (fs (rsys st)) f \<in> set (processed st) \<Longrightarrow> load_into p f st = (st, True)"
  by (simp add: load_into_def)

lemma load_into_unreadable:
  "unit_source (fs (rsys st)) f \<notin> set (processed st) \<Longrightarrow> fs_open_lines (fs (rsys st)) f = None \<Longrightarrow>
   load_into p f st = (st\<lparr>processed := processed st @ [unit_source (fs (rsys st)) f]\<rparr>, False)"
  by (simp add: load_into_def)

lemma load_into_loaded:
  "unit_source (fs (rsys st)) f \<notin> set (processed st) \<Longrightarrow> fs_open_lines (fs (rsys st)) f = Some c \<Longrightarrow>
   load_unit_file (dname (heap (rsys st) p)) (def (heap (rsys st) p)) c = (df, None) \<Longrightarrow>
   load_into p f st =
     (st\<lparr>processed := processed st @ [unit_source (fs (rsys st)) f],
         rsys := upd_daemon p (\<lambda>d. d\<lparr>def := Some df\<rparr>) (rsys st)\<rparr>, True)"
  by (simp add: load_into_def Let_def)

lemma load_into_failed:
  "unit_source (fs (rsys st)) f \<notin> set (processed st) \<Longrightarrow> fs_open_lines (fs (rsys st)) f = Some c \<Longrightarrow>
   load_unit_file (dname (heap (rsys st) p)) (def (heap (rsys st) p)) c = (df, Some e) \<Longrightarrow>
   load_into p f st =
     (st\<lparr>processed := processed st @ [unit_source (fs (rsys st)) f],
         rsys := upd_daemon p (\<lambda>d. d\<lparr>def := olddef d, olddef := None\<rparr>) (rsys st),
         failed := failed st @ [dname (heap (rsys st) p)]\<rparr>, False)"
  by (simp add: load_into_def Let_def)

lemma load_into_keeps: "keeps (rsys st) (rsys (fst (load_into p f st)))"
proof (cases "unit_source (fs (rsys st)) f \<in> set (processed st)")
  case True
  then show ?thesis by (simp add: load_into_again keeps_refl)
next
  case new: False
  let ?d = "heap (rsys st) p"
  show ?thesis
  proof (cases "fs_open_lines (fs (rsys st)) f")
    case None
    then show ?thesis using new by (simp add: load_into_unreadable keeps_refl)
  next
    case (Some c)
    obtain df e where l: "load_unit_file (dname ?d) (def ?d) c = (df, e)" by fastforce
    show ?thesis
    proof (cases e)
      case None
      have "deps_ok df" if "daemon_ok ?d"
      proof -
        have "deps_ok (fst (load_unit_file (dname ?d) (def ?d) c))"
          by (rule load_deps_ok) (use that in \<open>simp add: daemon_ok_def\<close>)
        then show ?thesis by (simp add: l)
      qed
      then have "keeps (rsys st) (upd_daemon p (\<lambda>d. d\<lparr>def := Some df\<rparr>) (rsys st))"
        by (intro keeps_upd) (simp_all add: daemon_ok_def)
      then show ?thesis using load_into_loaded [OF new Some l [unfolded None]] by simp
    next
      case e: (Some x)
      have "keeps (rsys st) (upd_daemon p (\<lambda>d. d\<lparr>def := olddef d, olddef := None\<rparr>) (rsys st))"
        by (intro keeps_upd) (simp_all add: daemon_ok_def)
      then show ?thesis using load_into_failed [OF new Some l [unfolded e]] by simp
    qed
  qed
qed

lemma set_update_subset: "set (AList.update k v m) \<subseteq> insert (k, v) (set m)"
  by (induction m) auto

lemma registry_ok_enter:
  assumes "registry_ok s" "p < next_ref s" "dname (heap s p) = fn"
  shows "registry_ok (s\<lparr>dlist := AList.update fn p (dlist s)\<rparr>)"
proof -
  have "q < next_ref s \<and> dname (heap s q) = a" if "(a, q) \<in> set (AList.update fn p (dlist s))" for a q
    using that set_update_subset [of fn p "dlist s"] registry_okD(2) [OF assms(1), of a q] assms(2,3) by auto
  then show ?thesis using registry_okD(1,3) [OF assms(1)]
    by (intro registry_okI) (simp_all add: distinct_update)
qed


lemma unit_daemon_ok:
  assumes "registry_ok s" "unit_daemon fn path s = (p, s')"
  shows "registry_ok s' \<and> p < next_ref s' \<and> dname (heap s' p) = fn \<and> dlist s' = dlist s \<and> fs s' = fs s"
proof (cases "map_of (dlist s) fn")
  case None
  then have eq: "p = next_ref s" "s' = snd (alloc_daemon fn path s)"
    using assms(2) by (auto simp: unit_daemon_def alloc_daemon_def)
  have "registry_ok s'"
  proof (rule registry_okI)
    show "gm_ok (dlist s')" using registry_okD(1) [OF assms(1)] by (simp add: eq alloc_daemon_def)
    show "q < next_ref s' \<and> dname (heap s' q) = a" if "(a, q) \<in> set (dlist s')" for a q
      using registry_okD(2) [OF assms(1), of a q] that by (simp add: eq alloc_daemon_def)
    show "daemon_ok (heap s' q)" for q
      using registry_okD(3) [OF assms(1), of q] by (simp add: eq alloc_daemon_def new_daemon_def daemon_ok_def)
  qed
  then show ?thesis by (simp add: eq alloc_daemon_def new_daemon_def)
next
  case (Some q)
  then have "(fn, q) \<in> set (dlist s)" by (simp add: map_of_SomeD)
  moreover have eq: "p = q" "s' = upd_daemon q (add_path path) s"
    using Some assms(2) by (auto simp: unit_daemon_def)
  ultimately show ?thesis
    using registry_ok_upd [OF assms(1), of "add_path path" q] registry_okD(2) [OF assms(1)]
    by (simp add: add_path_ok)
qed

lemma mask_or_load_keeps: "keeps (rsys st) (rsys (fst (mask_or_load p f st)))"
proof -
  have "keeps (rsys st) (upd_daemon p (\<lambda>d. d\<lparr>is_masked := b\<rparr>) (rsys st))" for b
    by (rule keeps_upd) (simp_all add: daemon_ok_def)
  from keeps_trans [OF this] load_into_keeps [of "st\<lparr>rsys := upd_daemon p (\<lambda>d. d\<lparr>is_masked := False\<rparr>) (rsys st)\<rparr>" p f] this
  show ?thesis by (auto simp: mask_or_load_def Let_def)
qed

lemma reload_entry_ok:
  assumes "registry_ok (rsys st)"
  shows "registry_ok (rsys (reload_entry locs e st)) \<and> fs (rsys (reload_entry locs e st)) = fs (rsys st)"
proof -
  obtain fname d where e: "e = (fname, d)" by (cases e)
  define fpath where "fpath = path_join locs fname"
  show ?thesis
  proof (cases "d \<or> \<not> has_suffix fpath ''.service''")
    case True
    then show ?thesis using assms by (auto simp: reload_entry_def e fpath_def Let_def)
  next
    case False
    define fn where "fn = trim_suffix fname ''.service''"
    obtain p s where u: "unit_daemon fn fpath (rsys st) = (p, s)" by fastforce
    note ok = unit_daemon_ok [OF assms u]
    obtain st1 c where ml: "mask_or_load p fpath (st\<lparr>rsys := s\<rparr>) = (st1, c)" by fastforce
    have "reload_entry locs e st = (if c then enter_unit fn p st1 else st1)"
      using False u ml by (simp add: reload_entry_def e fpath_def [symmetric] fn_def [symmetric] Let_def)
    moreover have "keeps s (rsys st1)" using mask_or_load_keeps [of "st\<lparr>rsys := s\<rparr>" p fpath] by (simp add: ml)
    ultimately show ?thesis
      using registry_ok_enter [of "rsys st1" p fn] ok by (auto simp: keeps_def enter_unit_def)
  qed
qed

lemma reload_conf_keeps: "keeps (rsys st) (rsys (reload_conf p f e st))"
proof -
  obtain n d where e: "e = (n, d)" by (cases e)
  have "keeps (rsys st) (upd_daemon p (add_path q) (rsys st))" for q
    by (rule keeps_upd) (simp_all add: add_path_ok)
  from keeps_trans [OF this] load_into_keeps [of "st\<lparr>rsys := upd_daemon p (add_path (path_join f n)) (rsys st)\<rparr>" p "path_join f n"]
  show ?thesis by (auto simp: reload_conf_def e Let_def keeps_refl)
qed

lemma fold_keeps: "(\<And>e st. keeps (rsys st) (rsys (f e st))) \<Longrightarrow> keeps (rsys st) (rsys (fold f es st))"
  by (induction es arbitrary: st) (auto intro: keeps_refl keeps_trans)

lemma reload_dropins_keeps: "keeps (rsys st) (rsys (reload_dropins locs e st))"
proof -
  obtain n d where e: "e = (n, d)" by (cases e)
  show ?thesis
    using fold_keeps [of "reload_conf _ _", OF reload_conf_keeps]
    by (auto simp: reload_dropins_def e Let_def keeps_refl split: option.split)
qed

lemma reload_dir_ok:
  assumes "\<And>e st. registry_ok (rsys st) \<Longrightarrow> registry_ok (rsys (f locs e st)) \<and> fs (rsys (f locs e st)) = fs (rsys st)"
    and "registry_ok (rsys st)"
  shows "registry_ok (rsys (reload_dir f locs st)) \<and> fs (rsys (reload_dir f locs st)) = fs (rsys st)"
proof -
  have "registry_ok (rsys (fold (f locs) es st)) \<and> fs (rsys (fold (f locs) es st)) = fs (rsys st)"
    if "registry_ok (rsys st)" for es st
    using that by (induction es arbitrary: st) (auto simp: assms(1))
  with assms(2) show ?thesis by (auto simp: reload_dir_def split: option.split)
qed

lemma reload_dirs_ok:
  assumes "\<And>locs e st. registry_ok (rsys st) \<Longrightarrow> registry_ok (rsys (f locs e st)) \<and> fs (rsys (f locs e st)) = fs (rsys st)"
  shows "registry_ok (rsys st) \<Longrightarrow>
     registry_ok (rsys (fold (reload_dir f) ds st)) \<and> fs (rsys (fold (reload_dir f) ds st)) = fs (rsys st)"
proof (induction ds arbitrary: st)
  case (Cons d ds)
  then show ?case using reload_dir_ok [of f d st, OF assms] by simp
qed simp

lemma gm_ok_filter: "gm_ok m \<Longrightarrow> gm_ok (filter P m)"
  by (induction m) auto

lemma reload_prune_ok: "registry_ok s \<Longrightarrow> registry_ok (reload_prune s) \<and> fs (reload_prune s) = fs s"
proof -
  assume ok: "registry_ok s"
  define t where "t = fold (\<lambda>(_, p). upd_daemon p (\<lambda>d. d\<lparr>olddef := None\<rparr>)) (dlist s) s"
  have k: "keeps s t" unfolding t_def by (rule keeps_fold_upd) (simp_all add: daemon_ok_def)
  with ok have t: "registry_ok t" by (simp add: keeps_def)
  have "registry_ok (t\<lparr>dlist := filter P (dlist t)\<rparr>)" for P
  proof (rule registry_okI)
    show "p < next_ref (t\<lparr>dlist := filter P (dlist t)\<rparr>) \<and> dname (heap (t\<lparr>dlist := filter P (dlist t)\<rparr>) p) = a"
      if "(a, p) \<in> set (dlist (t\<lparr>dlist := filter P (dlist t)\<rparr>))" for a p
      using registry_okD(2) [OF t, of a p] that by simp
  qed (use registry_okD(1,3) [OF t] in \<open>simp_all add: gm_ok_filter\<close>)
  then show ?thesis using k by (simp add: reload_prune_def t_def [symmetric] Let_def keeps_def)
qed

lemma reload_read_ok: "registry_ok s \<Longrightarrow> registry_ok (reload_read s) \<and> fs (reload_read s) = fs s"
proof -
  assume ok: "registry_ok s"
  let ?ds = "get_systemd_paths (is_symlink (fs s))"
  let ?st0 = "\<lparr>rsys = reload_forget s, processed = [], failed = []\<rparr>"
  have 0: "registry_ok (rsys ?st0) \<and> fs (rsys ?st0) = fs s"
    using ok reload_forget_keeps [of s] by (simp add: keeps_def)
  note 1 = reload_dirs_ok [of reload_entry, OF reload_entry_ok, of ?st0 ?ds]
  have "registry_ok (rsys st) \<Longrightarrow> registry_ok (rsys (reload_dropins l e st)) \<and> fs (rsys (reload_dropins l e st)) = fs (rsys st)" for l e st
    using reload_dropins_keeps [of st l e] by (simp add: keeps_def)
  note 2 = reload_dirs_ok [of reload_dropins, OF this, of "fold (reload_dir reload_entry) ?ds ?st0" ?ds]
  show ?thesis
    using 0 1 2 reload_prune_ok by (simp add: reload_read_def Let_def)
qed

section \<open>Linking keeps it, too\<close>

lemma put_dep_ok: "deps_ok d \<Longrightarrow> deps_ok (put_dep k x v d)"
  by (simp add: deps_ok_def put_dep_def gm.ok_put)

lemma upd_def_keeps: "(\<And>d. deps_ok d \<Longrightarrow> deps_ok (g d)) \<Longrightarrow> keeps s (upd_def q g s)"
  unfolding upd_def_def
  by (rule keeps_upd; cases "def (heap s q)") (simp_all add: daemon_ok_def)

lemma link_name_keeps:
  assumes "link_name r p k b x s = Done s'"
  shows "keeps s s'"
proof -
  note put = upd_def_keeps [OF put_dep_ok]
  from assms show ?thesis
    by (auto simp: link_name_def Let_def intro: put keeps_trans [OF put put] split: option.splits if_splits)
qed

lemmas fold_outcome_keeps = keeps.outcome_frame [rotated]

lemma link_kind_keeps: "link_kind r p e s = Done s' \<Longrightarrow> keeps s s'"
  by (cases e) (auto split: option.splits elim: fold_outcome_keeps intro: link_name_keeps)

lemma reload_link_keeps: "reload_link es s = Done s' \<Longrightarrow> keeps s s'"
proof -
  have "link_daemon e s = Done s' \<Longrightarrow> keeps s s'" for e s s'
    unfolding link_daemon_def by (auto elim: fold_outcome_keeps intro: link_kind_keeps)
  then show "reload_link es s = Done s' \<Longrightarrow> keeps s s'"
    unfolding reload_link_def by (auto elim: fold_outcome_keeps)
qed

text \<open>An order in which a \<open>range\<close> may visit a map.\<close>

definition range_ok :: "range_order \<Rightarrow> bool" where
  "range_ok ord = (\<forall>m. gm_ok m \<longrightarrow> distinct (ord m) \<and> set (ord m) = set m)"

lemma range_ok_link_order: "range_ok ord \<Longrightarrow> registry_ok s \<Longrightarrow> link_order (ord (dlist s)) s"
  using registry_okD(1) registry_ok_refs by (auto simp: range_ok_def link_order_def)


lemma reload_read_pruned:
  "(a, p) \<in> set (dlist (reload_read s)) \<Longrightarrow> def (heap (reload_read s) p) = None \<Longrightarrow>
   dstate (heap (reload_read s) p) \<noteq> StateStopped"
  by (auto simp: reload_read_def reload_prune_def Let_def)

section \<open>Reading from one registry state\<close>

text \<open>
  The states \<open>Reload\<close> goes through while it reads, from the registry state \<open>s\<close> it was called in: the old
  definitions are set aside, then entries of unit directories and drop-ins of listed units are read.
\<close>

inductive reading :: "sys \<Rightarrow> reload \<Rightarrow> bool" for s where
  forgotten: "reading s \<lparr>rsys = reload_forget s, processed = [], failed = []\<rparr>"
| unit_read: "reading s st \<Longrightarrow> reading s (reload_entry locs e st)"
| dropin_read: "reading s st \<Longrightarrow> (n, p) \<in> set (dlist (rsys st)) \<Longrightarrow> reading s (reload_conf p f e st)"

text \<open>
  What a reload remembers of the unit \<open>fn\<close>: its daemon, and in \<open>olddef\<close> the definition it had, until
  one of its files fails to load.
\<close>

definition remembers :: "string \<Rightarrow> ref \<Rightarrow> daemondef option \<Rightarrow> reload \<Rightarrow> bool" where
  "remembers fn p od st =
     (registry_ok (rsys st) \<and> map_of (dlist (rsys st)) fn = Some p \<and>
      olddef (heap (rsys st) p) = (if fn \<in> set (failed st) then None else od))"

lemma remembersD:
  assumes "remembers fn p od st"
  shows "registry_ok (rsys st)" "p < next_ref (rsys st)" "dname (heap (rsys st) p) = fn"
  using assms registry_okD(2) [of "rsys st" fn p] by (auto simp: remembers_def dest: map_of_SomeD)

lemma reload_forget_at:
  assumes "registry_ok s" "map_of (dlist s) fn = Some p"
  shows "heap (reload_forget s) p = forget_def (heap s p)"
proof -
  have other: "heap (fold (\<lambda>(_, p). upd_daemon p g) es t) p = heap t p"
    if "p \<notin> set (map snd es)" for es :: "(string \<times> ref) list" and t and g :: "daemon \<Rightarrow> daemon"
    using that by (induction es arbitrary: t) (auto simp: split_beta)
  have "heap (fold (\<lambda>(_, p). upd_daemon p g) es t) p = g (heap t p)"
    if "distinct (map snd es)" "p \<in> set (map snd es)" for es :: "(string \<times> ref) list" and t and g :: "daemon \<Rightarrow> daemon"
    using that
  proof (induction es arbitrary: t)
    case (Cons e es)
    show ?case
    proof (cases "snd e = p")
      case True
      with Cons.prems(1) have "p \<notin> set (map snd es)" by auto
      from other [OF this] True show ?thesis by (cases e) simp
    next
      case False
      with Cons show ?thesis by (cases e) simp
    qed
  qed simp
  moreover have "(fn, p) \<in> set (dlist s)" using assms(2) by (rule map_of_SomeD)
  then have "p \<in> set (map snd (dlist s))" by (auto intro: rev_image_eqI)
  moreover have "distinct (map snd (dlist s))"
    using registry_ok_refs [OF assms(1)] by (simp add: refs_ok_def distinct_map)
  ultimately show ?thesis by (simp add: reload_forget_def)
qed

lemma remembers_forget:
  assumes "registry_ok s" "map_of (dlist s) fn = Some p"
  shows "remembers fn p (def (heap s p)) \<lparr>rsys = reload_forget s, processed = [], failed = []\<rparr>"
  using assms reload_forget_keeps [of s] reload_forget_at [OF assms]
  by (auto simp: remembers_def keeps_def forget_def_def)

lemma remembers_upd:
  assumes "remembers fn p od st" "keeps (rsys st) (upd_daemon q f (rsys st))" "olddef (f (heap (rsys st) q)) = olddef (heap (rsys st) q)"
  shows "remembers fn p od (st\<lparr>rsys := upd_daemon q f (rsys st)\<rparr>)"
  using assms by (auto simp: remembers_def keeps_def)

lemma remembers_load:
  assumes st: "remembers fn p od st" and q: "q \<noteq> p \<Longrightarrow> dname (heap (rsys st) q) \<noteq> fn"
  shows "remembers fn p od (fst (load_into q f st))"
proof (cases "unit_source (fs (rsys st)) f \<in> set (processed st)")
  case True
  then show ?thesis by (simp add: load_into_again st)
next
  case new: False
  let ?d = "heap (rsys st) q"
  have ok: "registry_ok (rsys (fst (load_into q f st)))"
    using load_into_keeps [of st q f] st by (simp add: keeps_def remembers_def)
  show ?thesis
  proof (cases "fs_open_lines (fs (rsys st)) f")
    case None
    then show ?thesis using new st by (simp add: load_into_unreadable remembers_def)
  next
    case (Some c)
    obtain df e where l: "load_unit_file (dname ?d) (def ?d) c = (df, e)" by fastforce
    show ?thesis
    proof (cases e)
      case None
      show ?thesis using load_into_loaded [OF new Some l [unfolded None]] ok st
        by (auto simp: remembers_def)
    next
      case e: (Some x)
      show ?thesis using load_into_failed [OF new Some l [unfolded e]] ok st q remembersD(3) [OF st]
        by (auto simp: remembers_def)
    qed
  qed
qed

lemma remembers_other:
  assumes "remembers fn p od st" "(n, q) \<in> set (dlist (rsys st))" "q \<noteq> p"
  shows "dname (heap (rsys st) q) \<noteq> fn"
proof
  note ok = remembersD(1) [OF assms(1)]
  assume "dname (heap (rsys st) q) = fn"
  with registry_okD(2) [OF ok assms(2)] have "map_of (dlist (rsys st)) fn = Some q"
    using assms(2) registry_okD(1) [OF ok] by (auto intro: map_of_is_SomeI)
  with assms(1,3) show False by (simp add: remembers_def)
qed

lemma remembers_conf:
  assumes st: "remembers fn p od st" and q: "(n, q) \<in> set (dlist (rsys st))"
  shows "remembers fn p od (reload_conf q f e st)"
proof -
  obtain m d where e: "e = (m, d)" by (cases e)
  let ?st = "st\<lparr>rsys := upd_daemon q (add_path (path_join f m)) (rsys st)\<rparr>"
  have "keeps (rsys st) (upd_daemon q (add_path (path_join f m)) (rsys st))"
    by (rule keeps_upd) (simp_all add: add_path_ok)
  then have st': "remembers fn p od ?st" by (rule remembers_upd [OF st]) (simp add: add_path_ok)
  have "remembers fn p od (fst (load_into q (path_join f m) ?st))"
    by (rule remembers_load [OF st']) (use remembers_other [OF st' , of n q] q in simp)
  with st show ?thesis by (simp add: reload_conf_def e Let_def)
qed

lemma remembers_unit_daemon:
  assumes st: "remembers fn p od st" and u: "unit_daemon n path (rsys st) = (q, s)"
  shows "remembers fn p od (st\<lparr>rsys := s\<rparr>)" "q = p \<longleftrightarrow> n = fn"
proof -
  note ok = unit_daemon_ok [OF remembersD(1) [OF st] u]
  have fn: "map_of (dlist (rsys st)) fn = Some p" using st by (simp add: remembers_def)
  have "olddef (heap s p) = olddef (heap (rsys st) p)"
    using u remembersD(2) [OF st] by (auto simp: unit_daemon_def alloc_daemon_def add_path_ok split: option.splits)
  then show 1: "remembers fn p od (st\<lparr>rsys := s\<rparr>)" using st ok by (simp add: remembers_def)
  have "n = fn \<Longrightarrow> q = p" using u fn by (simp add: unit_daemon_def)
  moreover have "q = p \<Longrightarrow> n = fn" using ok remembersD(3) [OF 1] by simp
  ultimately show "q = p \<longleftrightarrow> n = fn" by blast
qed

lemma remembers_entry:
  assumes st: "remembers fn p od st"
  shows "remembers fn p od (reload_entry locs e st)"
proof -
  obtain fname d where e: "e = (fname, d)" by (cases e)
  define path where "path = path_join locs fname"
  show ?thesis
  proof (cases "d \<or> \<not> has_suffix path ''.service''")
    case True
    then show ?thesis using st by (auto simp: reload_entry_def e path_def Let_def)
  next
    case False
    define n where "n = trim_suffix fname ''.service''"
    obtain q s where u: "unit_daemon n path (rsys st) = (q, s)" by fastforce
    note r = remembers_unit_daemon [OF st u]
    note ok = unit_daemon_ok [OF remembersD(1) [OF st] u]
    define b where "b = (fs_readlink (fs s) path = Some ''/dev/null'')"
    define st0 where "st0 = st\<lparr>rsys := upd_daemon q (\<lambda>d. d\<lparr>is_masked := b\<rparr>) s\<rparr>"
    have "keeps s (upd_daemon q (\<lambda>d. d\<lparr>is_masked := b\<rparr>) s)"
      by (rule keeps_upd) (simp_all add: daemon_ok_def)
    then have st0: "remembers fn p od st0"
      using remembers_upd [OF r(1), of q "\<lambda>d. d\<lparr>is_masked := b\<rparr>"] by (simp add: st0_def)
    have nm: "dname (heap (rsys st0) q) = n" using ok by (simp add: st0_def)
    obtain st1 c where ml: "mask_or_load q path (st\<lparr>rsys := s\<rparr>) = (st1, c)" by fastforce
    have "remembers fn p od (fst (load_into q path st0))"
      by (rule remembers_load [OF st0]) (use nm r(2) in simp)
    then have st1: "remembers fn p od st1"
      using ml st0 by (auto simp: mask_or_load_def Let_def st0_def b_def split: if_splits)
    have k: "dlist (rsys st1) = dlist s" "next_ref (rsys st1) = next_ref s" "dname (heap (rsys st1) q) = n"
      using mask_or_load_keeps [of "st\<lparr>rsys := s\<rparr>" q path] ok by (simp_all add: ml keeps_def)
    have "remembers fn p od (enter_unit n q st1)"
      using st1 registry_ok_enter [of "rsys st1" q n] k ok r(2)
      by (auto simp: remembers_def enter_unit_def gm.get_put)
    with st1 show ?thesis
      using False u ml by (simp add: reload_entry_def e path_def [symmetric] n_def [symmetric] Let_def)
  qed
qed

lemma reading_remembers:
  assumes "reading s st" "registry_ok s" "map_of (dlist s) fn = Some p"
  shows "remembers fn p (def (heap s p)) st"
  using assms by induction (auto intro: remembers_forget remembers_entry remembers_conf)

section \<open>Properties\<close>

text \<open>The state before the first reload, and unit file texts.\<close>

definition init_sys :: "filesys \<Rightarrow> sys" where
  "init_sys f = \<lparr>heap = (\<lambda>_. new_daemon [] []), next_ref = 0, dlist = [], shutdown = False, fs = f,
     locks = [], ticks = 0, events = []\<rparr>"

definition unit_text :: "string list \<Rightarrow> string" where
  "unit_text ls = concat (map (\<lambda>l. l @ [CHR 0x0A]) ls)"

text \<open>
  C15. \<open>Reload\<close> keeps the registry well formed, and it returns exactly if every daemon that is
  listed after the unit files were read has a definition and none names itself as a dependency;
  otherwise the process panics or blocks for ever with the registry locked. This holds whatever
  the order in which Go visits the registry.
\<close>

theorem reload_returns_iff:
  assumes "registry_ok s" "range_ok ord"
  shows "((\<exists>s'. ds_reload ord s = Done s') \<longleftrightarrow> linkable (reload_read s)) \<and>
    (\<forall>s'. ds_reload ord s = Done s' \<longrightarrow>
       registry_ok s' \<and> fs s' = fs s \<and> dlist s' = dlist (reload_read s))"
proof -
  let ?r = "reload_read s"
  note read = reload_read_ok [OF assms(1)]
  note order = range_ok_link_order [OF assms(2), of ?r]
  have eq: "ds_reload ord s = reload_link (ord (dlist ?r)) ?r" by (simp add: ds_reload_def Let_def)
  have "linkable ?r" if "ds_reload ord s = Done s'" for s'
    by (rule reload_link_linkable [of ?r "ord (dlist ?r)" s'])
      (use that order read in \<open>simp_all add: eq link_order_def\<close>)
  moreover have "\<exists>s'. ds_reload ord s = Done s'" if "linkable ?r"
    using link_runs [OF order that] read by (auto simp: eq)
  moreover have "registry_ok s' \<and> fs s' = fs s \<and> dlist s' = dlist ?r" if "ds_reload ord s = Done s'" for s'
    using reload_link_keeps [of "ord (dlist ?r)" ?r s'] that read by (simp add: eq keeps_def)
  ultimately show ?thesis by blast
qed

definition one_fs :: filesys where
  "one_fs = [(etc_units, Directory), (etc_units @ ''/a.service'', RegFile ''[unit]'')]"

lemma init_sys_ok: "registry_ok (init_sys f)"
  by (rule registry_okI) (simp_all add: init_sys_def new_daemon_def daemon_ok_def)

lemma range_ok_id: "range_ok id" and range_ok_rev: "range_ok rev"
  by (auto simp: range_ok_def distinct_map)

lemma reload_returns_iff_witness: "\<exists>s'. ds_reload rev (init_sys one_fs) = Done s' \<and> registry_ok s'"
proof -
  have "linkable (reload_read (init_sys one_fs))" by code_simp
  with reload_returns_iff [OF init_sys_ok range_ok_rev, of one_fs] show ?thesis by blast
qed

text \<open>Three units in memory: \<open>a\<close> requires \<open>b\<close> and has the requisite \<open>c\<close>, \<open>b\<close> is before \<open>c\<close>.\<close>

definition pair_sys :: sys where
  "pair_sys = (init_sys [])
    \<lparr>heap := (\<lambda>_. new_daemon [] [])
       (0 := (new_daemon ''a'' [])\<lparr>def := Some (put_dep Requires ''b'' None (put_dep Requisite ''c'' None empty_def))\<rparr>,
        1 := (new_daemon ''b'' [])\<lparr>def := Some (put_dep Before ''c'' None empty_def)\<rparr>,
        2 := (new_daemon ''c'' [])\<lparr>def := Some empty_def\<rparr>),
     next_ref := 3, dlist := [(''a'', 0), (''b'', 1), (''c'', 2)]\<rparr>"

lemma pair_sys_link: "link_order (rev (dlist pair_sys)) pair_sys" "linkable pair_sys"
  by code_simp+

lemma link_relations_witness: "\<exists>s'. reload_link (rev (dlist pair_sys)) pair_sys = Done s' \<and>
   depends s' ''b'' RequiredBy ''a'' \<and> depends s' ''c'' RequisiteOf ''a'' \<and> depends s' ''a'' Requires ''c'' \<and>
   depends s' ''c'' After ''b''"
proof -
  have "depends pair_sys ''a'' Requires ''b''" by code_simp
  moreover have "depends pair_sys ''a'' Requisite ''c''" by code_simp
  moreover have "depends pair_sys ''b'' Before ''c''" by code_simp
  moreover have "linked pair_sys ''b'' \<and> linked pair_sys ''c''" by code_simp
  moreover obtain s' where s': "reload_link (rev (dlist pair_sys)) pair_sys = Done s'"
    "\<forall>a k x. depends s' a k x \<longleftrightarrow>
       depends pair_sys a k x \<or> (linked pair_sys a \<and> depends pair_sys x (opposite k) a) \<or>
       (k = Requires \<and> (depends pair_sys a Requisite x \<or>
                          early (map fst (rev (dlist pair_sys))) x a \<and> depends pair_sys x RequisiteOf a))"
    using link_relations [OF pair_sys_link] by blast
  ultimately show ?thesis using s'(2) [rule_format, of "''b''" RequiredBy "''a''"]
    s'(2) [rule_format, of "''c''" RequisiteOf "''a''"] s'(2) [rule_format, of "''a''" Requires "''c''"]
    s'(2) [rule_format, of "''c''" After "''b''"] by simp
qed

lemma link_pointers_witness: "\<exists>s'. reload_link (rev (dlist pair_sys)) pair_sys = Done s' \<and>
   dep_val s' ''a'' Requisite ''c'' = Some None"
proof -
  have 1: "\<not> depends pair_sys ''c'' RequisiteOf ''a''"
    "\<not> early (map fst (rev (dlist pair_sys))) ''a'' ''c''" "dep_val pair_sys ''a'' Requisite ''c'' = Some None"
    by code_simp+
  obtain s' where s': "reload_link (rev (dlist pair_sys)) pair_sys = Done s'"
    "\<forall>a x. dep_val s' a Requisite x =
       (if linked pair_sys a \<and> (depends pair_sys x RequisiteOf a \<or> early (map fst (rev (dlist pair_sys))) a x \<and> depends pair_sys a Requisite x)
        then Some (map_of (dlist pair_sys) x) else dep_val pair_sys a Requisite x)"
    using link_pointers [OF pair_sys_link] by blast
  with 1 show ?thesis using s'(2) [rule_format, of "''a''" "''c''"] by auto
qed

section \<open>Unit files\<close>

text \<open>The daemon that an entry works on, and what \<open>unit_daemon\<close> makes of it.\<close>

definition entry_daemon :: "string \<Rightarrow> string \<Rightarrow> sys \<Rightarrow> daemon" where
  "entry_daemon fn path s =
     (case map_of (dlist s) fn of Some p \<Rightarrow> add_path path (heap s p) | None \<Rightarrow> new_daemon fn path)"

lemma unit_daemon_entry:
  "unit_daemon fn path s = (p, s') \<Longrightarrow> heap s' p = entry_daemon fn path s \<and> dlist s' = dlist s \<and> fs s' = fs s"
  by (auto simp: unit_daemon_def alloc_daemon_def entry_daemon_def split: option.splits)

lemma reload_entry_run:
  assumes "unit_daemon fn (path_join locs (fn @ ''.service'')) (rsys st) = (p, s)"
  shows "reload_entry locs (fn @ ''.service'', False) st =
    (case mask_or_load p (path_join locs (fn @ ''.service'')) (st\<lparr>rsys := s\<rparr>) of
       (st1, c) \<Rightarrow> if c then enter_unit fn p st1 else st1)"
proof -
  have "has_suffix (path_join locs (fn @ ''.service'')) ''.service''"
    using has_suffix_append [of "locs @ ''/'' @ fn" "''.service''"] by (simp add: path_join_def)
  moreover have "trim_suffix (fn @ ''.service'') ''.service'' = fn" by (rule trim_suffix_append)
  ultimately show ?thesis using assms by (simp add: reload_entry_def Let_def)
qed

text \<open>
  C18. Reading one unit file: an entry \<open>NAME.service\<close> that is no mask and was not read under another
  name is loaded on top of what its daemon has so far; the daemon is listed under \<open>NAME\<close> with the
  result as its definition, is not masked, and knows the path.
\<close>

theorem unit_file_read:
  assumes "path = path_join locs (fn @ ''.service'')"
    and "fs_readlink (fs (rsys st)) path \<noteq> Some ''/dev/null''"
    and "unit_source (fs (rsys st)) path \<notin> set (processed st)"
    and "fs_open_lines (fs (rsys st)) path = Some content"
    and "d = entry_daemon fn path (rsys st)"
    and "load_unit_file (dname d) (def d) content = (df, None)"
  shows "\<exists>p. map_of (dlist (rsys (reload_entry locs (fn @ ''.service'', False) st))) fn = Some p \<and>
    heap (rsys (reload_entry locs (fn @ ''.service'', False) st)) p = d\<lparr>is_masked := False, def := Some df\<rparr>"
proof -
  obtain p s where u: "unit_daemon fn path (rsys st) = (p, s)" by fastforce
  note e = unit_daemon_entry [OF u]
  define st1 where "st1 = st\<lparr>rsys := upd_daemon p (\<lambda>d. d\<lparr>is_masked := False\<rparr>) s\<rparr>"
  have st1: "heap (rsys st1) p = d\<lparr>is_masked := False\<rparr>" "fs (rsys st1) = fs (rsys st)" "processed st1 = processed st"
    using e assms(5) by (simp_all add: st1_def)
  have "mask_or_load p path (st\<lparr>rsys := s\<rparr>) = load_into p path st1"
    using e assms(2) by (simp add: mask_or_load_def Let_def st1_def)
  moreover have "load_into p path st1 = (st1\<lparr>processed := processed st1 @ [unit_source (fs (rsys st1)) path],
         rsys := upd_daemon p (\<lambda>d. d\<lparr>def := Some df\<rparr>) (rsys st1)\<rparr>, True)"
    by (rule load_into_loaded) (use st1 assms in simp_all)
  ultimately show ?thesis
    using reload_entry_run [of fn locs st p s] u st1 by (simp add: assms(1) enter_unit_def gm.get_put)
qed

text \<open>
  C19. A unit file that does not load gives its daemon back the definition it had before the reload,
  at whatever point of the reading it is met, and the unit is reported as failed. That is so for the
  first file of the unit that fails; the second leaves the daemon without a definition, because
  \<open>olddef\<close> was given away.
\<close>

theorem failed_load_keeps_definition:
  assumes "registry_ok s" "map_of (dlist s) fn = Some p" "reading s st"
    and "path = path_join locs (fn @ ''.service'')"
    and "fs_readlink (fs (rsys st)) path \<noteq> Some ''/dev/null''"
    and "unit_source (fs (rsys st)) path \<notin> set (processed st)"
    and "fs_open_lines (fs (rsys st)) path = Some content"
    and "load_unit_file fn (def (heap (rsys st) p)) content = (df, Some e)"
  shows "let st' = reload_entry locs (fn @ ''.service'', False) st in
    map_of (dlist (rsys st')) fn = Some p \<and> failed st' = failed st @ [fn] \<and>
    def (heap (rsys st') p) = (if fn \<in> set (failed st) then None else def (heap s p))"
proof -
  note r = reading_remembers [OF assms(3,1,2)]
  have fn: "map_of (dlist (rsys st)) fn = Some p" using r by (simp add: remembers_def)
  define t where "t = upd_daemon p (add_path path) (rsys st)"
  have u: "unit_daemon fn path (rsys st) = (p, t)" using fn by (simp add: unit_daemon_def t_def)
  define st1 where "st1 = st\<lparr>rsys := upd_daemon p (\<lambda>d. d\<lparr>is_masked := False\<rparr>) t\<rparr>"
  have st1: "fs (rsys st1) = fs (rsys st)" "processed st1 = processed st" "failed st1 = failed st"
     "def (heap (rsys st1) p) = def (heap (rsys st) p)" "dname (heap (rsys st1) p) = fn"
     "olddef (heap (rsys st1) p) = olddef (heap (rsys st) p)" "dlist (rsys st1) = dlist (rsys st)"
    using remembersD(3) [OF r] by (simp_all add: st1_def t_def add_path_ok)
  have "mask_or_load p path (st\<lparr>rsys := t\<rparr>) = load_into p path st1"
    using assms(5) by (simp add: mask_or_load_def Let_def st1_def t_def)
  moreover have "load_into p path st1 = (st1\<lparr>processed := processed st1 @ [unit_source (fs (rsys st1)) path],
         rsys := upd_daemon p (\<lambda>d. d\<lparr>def := olddef d, olddef := None\<rparr>) (rsys st1),
         failed := failed st1 @ [dname (heap (rsys st1) p)]\<rparr>, False)"
    by (rule load_into_failed) (use st1 assms in simp_all)
  ultimately show ?thesis
    using reload_entry_run [of fn locs st p t] u st1 r fn by (simp add: assms(4) remembers_def)
qed

definition one_state :: "filesys \<Rightarrow> reload" where
  "one_state f = \<lparr>rsys = (init_sys f)\<lparr>heap := (\<lambda>_. new_daemon ''a'' ''p''), next_ref := 1, dlist := [(''a'', 0)]\<rparr>,
                   processed = [], failed = []\<rparr>"

lemma unit_file_read_witness:
  "let st = reload_entry etc_units (''a'' @ ''.service'', False) (one_state one_fs) in
   \<exists>p. map_of (dlist (rsys st)) ''a'' = Some p \<and> def (heap (rsys st) p) \<noteq> None"
proof -
  let ?path = "path_join etc_units (''a'' @ ''.service'')"
  let ?d = "entry_daemon ''a'' ?path (rsys (one_state one_fs))"
  have 1: "fs_readlink (fs (rsys (one_state one_fs))) ?path \<noteq> Some ''/dev/null''"
    "unit_source (fs (rsys (one_state one_fs))) ?path \<notin> set (processed (one_state one_fs))"
    "fs_open_lines (fs (rsys (one_state one_fs))) ?path = Some ''[unit]''" by code_simp+
  have "snd (load_unit_file (dname ?d) (def ?d) ''[unit]'') = None" by code_simp
  then obtain df where "load_unit_file (dname ?d) (def ?d) ''[unit]'' = (df, None)" by (metis prod.collapse)
  from unit_file_read [OF refl 1 refl this] show ?thesis by (force simp: Let_def)
qed

definition bad_text :: string where
  "bad_text = unit_text [''[service]'', ''restartsec=x'']"

definition bad_fs :: filesys where
  "bad_fs = [(etc_units, Directory), (etc_units @ ''/a.service'', RegFile bad_text),
     (usr_units, Directory), (usr_units @ ''/a.service'', RegFile bad_text)]"

definition bad_sys :: sys where
  "bad_sys = (init_sys bad_fs)\<lparr>heap := (\<lambda>_. (new_daemon ''a'' ''p'')\<lparr>def := Some (empty_def\<lparr>ServiceType := ''x''\<rparr>)\<rparr>),
     next_ref := 1, dlist := [(''a'', 0)]\<rparr>"

definition bad_start :: reload where
  "bad_start = \<lparr>rsys = reload_forget bad_sys, processed = [], failed = []\<rparr>"

definition bad_once :: reload where
  "bad_once = reload_entry etc_units (''a'' @ ''.service'', False) bad_start"

lemma failed_load_keeps_definition_witness:
  "map_option ServiceType (def (heap (rsys bad_once) 0)) = Some ''x'' \<and>
   def (heap (rsys (reload_entry usr_units (''a'' @ ''.service'', False) bad_once)) 0) = None"
proof -
  have ok: "registry_ok bad_sys"
    by (simp add: registry_ok_def bad_sys_def new_daemon_def daemon_ok_def deps_ok_def empty_def_def init_sys_def)
  have p: "map_of (dlist bad_sys) ''a'' = Some 0" by (simp add: bad_sys_def)
  have r: "reading bad_sys bad_start" unfolding bad_start_def by (rule reading.forgotten)
  then have r1: "reading bad_sys bad_once" unfolding bad_once_def by (rule reading.unit_read)
  have d: "map_option ServiceType (def (heap bad_sys 0)) = Some ''x''" by code_simp
  let ?etc = "path_join etc_units (''a'' @ ''.service'')" and ?usr = "path_join usr_units (''a'' @ ''.service'')"
  have 1: "fs_readlink (fs (rsys bad_start)) ?etc \<noteq> Some ''/dev/null''"
    "unit_source (fs (rsys bad_start)) ?etc \<notin> set (processed bad_start)"
    "fs_open_lines (fs (rsys bad_start)) ?etc = Some bad_text" by code_simp+
  have "snd (load_unit_file ''a'' (def (heap (rsys bad_start) 0)) bad_text) \<noteq> None" by code_simp
  then obtain df e where "load_unit_file ''a'' (def (heap (rsys bad_start) 0)) bad_text = (df, Some e)"
    by (metis not_None_eq prod.collapse)
  note first = failed_load_keeps_definition [OF ok p r refl 1 this]
  have 2: "fs_readlink (fs (rsys bad_once)) ?usr \<noteq> Some ''/dev/null''"
    "unit_source (fs (rsys bad_once)) ?usr \<notin> set (processed bad_once)"
    "fs_open_lines (fs (rsys bad_once)) ?usr = Some bad_text" by code_simp+
  have "snd (load_unit_file ''a'' (def (heap (rsys bad_once) 0)) bad_text) \<noteq> None" by code_simp
  then obtain df e where "load_unit_file ''a'' (def (heap (rsys bad_once) 0)) bad_text = (df, Some e)"
    by (metis not_None_eq prod.collapse)
  note second = failed_load_keeps_definition [OF ok p r1 refl 2 this]
  have "failed bad_start = []" by (simp add: bad_start_def)
  with first second d show ?thesis by (simp add: Let_def bad_once_def)
qed
text \<open>
  A service masked in \<open>/etc\<close> is unmasked again if the package's unit file exists: \<open>Reload\<close>
  resets the mark at every file of that name, so the last directory decides.
\<close>

definition masked_fs :: filesys where
  "masked_fs =
    [(etc_units, Directory), (etc_units @ ''/a.service'', Symlink ''/dev/null''),
     (usr_units, Directory), (usr_units @ ''/a.service'', RegFile ''[unit]'')]"

theorem mask_undone_by_package_unit:
  "case ds_reload id (init_sys masked_fs) of
     Done s \<Rightarrow> (case map_of (dlist s) ''a'' of
                 Some p \<Rightarrow> \<not> is_masked (heap s p) \<and> def (heap s p) \<noteq> None | None \<Rightarrow> False)
   | _ \<Rightarrow> False"
  by code_simp

definition override_fs :: filesys where
  "override_fs =
    [(etc_units, Directory), (etc_units @ ''/a.service'', RegFile (unit_text [''[service]'', ''type=x'', ''execstart=1''])),
     (usr_units, Directory), (usr_units @ ''/a.service'', RegFile (unit_text [''[service]'', ''type=y'', ''execstart=2'']))]"

text \<open>
  A unit in \<open>/etc\<close> does not replace the one in \<open>/usr/lib\<close>: both are read into one definition,
  so the package's scalar settings win over the administrator's, and the command lists of both are
  run.
\<close>

theorem package_unit_overrides_etc:
  "case ds_reload id (init_sys override_fs) of
     Done s \<Rightarrow> (case map_of (dlist s) ''a'' of
                 Some p \<Rightarrow> map_option ServiceType (def (heap s p)) = Some ''y'' \<and>
                            map_option (\<lambda>d. execs d ExecStart) (def (heap s p)) = Some [''1'', ''2'']
               | None \<Rightarrow> False)
   | _ \<Rightarrow> False"
  by code_simp

definition suffix_fs :: filesys where
  "suffix_fs =
    [(etc_units, Directory),
     (etc_units @ ''/a.service'', RegFile (unit_text [''[unit]'', ''requires=b.service''])),
     (etc_units @ ''/b.service'', RegFile ''[unit]'')]"

text \<open>
  Dependencies must be written without their suffix: \<open>Requires=b.service\<close>, the form unit files
  use, names no unit of the registry, whose keys are cut before \<open>.service\<close>. The pointer is nil,
  so starting the unit skips the dependency without an error.
\<close>

theorem suffixed_dependency_is_nil:
  "case ds_reload id (init_sys suffix_fs) of
     Done s \<Rightarrow> map_of (dlist s) ''b'' \<noteq> None \<and>
       dep_val s ''a'' Requires ''b.service'' = Some None \<and> dep_val s ''b'' RequiredBy ''a'' = None
   | _ \<Rightarrow> False"
  by code_simp

text \<open>A service \<open>a\<close> that runs while its unit file is gone.\<close>

definition orphan_sys :: sys where
  "orphan_sys = (init_sys [])\<lparr>heap := (\<lambda>_. (new_daemon ''a'' ''p'')\<lparr>dstate := StateRunning, def := Some empty_def\<rparr>),
     next_ref := 1, dlist := [(''a'', 0)]\<rparr>"

text \<open>
  If a service is running when its unit file disappears, the next \<open>Reload\<close> panics: the entry is
  kept because the service is not stopped, and linking dereferences its nil definition.
\<close>

theorem reload_panics_on_removed_unit:
  "case ds_reload id orphan_sys of Crash c \<Rightarrow> c = NilDeref | _ \<Rightarrow> False"
  by code_simp

end
