(* ===== verification/UnitRender.thy ===== *)
theory UnitRender
  imports UnitFile
begin

text \<open>
  A definition written as a unit file, and the theorem that \<open>loadUnitFile\<close> of
  \<open>systemd/daemons/unit.go\<close> reads it back. The keys are written down here as the documentation
  spells them, independently of the parser's tables: a key that the parser lacks, sends to
  another field or knows in the wrong section breaks the round trip.
\<close>

section \<open>Writing a definition\<close>

fun dep_word :: "dep_kind \<Rightarrow> string" where
  "dep_word Wants = ''Wants''"
| "dep_word WantedBy = ''WantedBy''"
| "dep_word Requires = ''Requires''"
| "dep_word RequiredBy = ''RequiredBy''"
| "dep_word Requisite = ''Requisite''"
| "dep_word RequisiteOf = ''RequisiteOf''"
| "dep_word BindsTo = ''BindsTo''"
| "dep_word BoundBy = ''BoundBy''"
| "dep_word PartOf = ''PartOf''"
| "dep_word ConsistsOf = ''ConsistsOf''"
| "dep_word Upholds = ''Upholds''"
| "dep_word UpheldBy = ''UpheldBy''"
| "dep_word Conflicts = ''Conflicts''"
| "dep_word ConflictedBy = ''ConflictedBy''"
| "dep_word Before = ''Before''"
| "dep_word After = ''After''"
| "dep_word OnFailure = ''OnFailure''"
| "dep_word OnSuccess = ''OnSuccess''"

fun exec_word :: "exec_kind \<Rightarrow> string" where
  "exec_word ExecStart = ''ExecStart''"
| "exec_word ExecStop = ''ExecStop''"
| "exec_word ExecStartPre = ''ExecStartPre''"
| "exec_word ExecStartPost = ''ExecStartPost''"
| "exec_word ExecStopPre = ''ExecStopPre''"
| "exec_word ExecStopPost = ''ExecStopPost''"
| "exec_word ExecCondition = ''ExecCondition''"

fun limit_word :: "limit_kind \<Rightarrow> string" where
  "limit_word LimitCpu = ''LimitCPU''"
| "limit_word LimitFsize = ''LimitFSIZE''"
| "limit_word LimitData = ''LimitDATA''"
| "limit_word LimitStack = ''LimitSTACK''"
| "limit_word LimitCore = ''LimitCORE''"
| "limit_word LimitRss = ''LimitRSS''"
| "limit_word LimitNoFile = ''LimitNOFILE''"
| "limit_word LimitAs = ''LimitAS''"
| "limit_word LimitNProc = ''LimitNPROC''"
| "limit_word LimitMemLock = ''LimitMEMLOCK''"
| "limit_word LimitLocks = ''LimitLOCKS''"
| "limit_word LimitSigPending = ''LimitSIGPENDING''"
| "limit_word LimitMsgQueue = ''LimitMSGQUEUE''"
| "limit_word LimitNice = ''LimitNICE''"
| "limit_word LimitRtPrio = ''LimitRTPRIO''"
| "limit_word LimitRtTime = ''LimitRTTIME''"

definition all_execs :: "exec_kind list" where
  "all_execs =
    [ExecCondition, ExecStartPre, ExecStart, ExecStartPost, ExecStopPre, ExecStop, ExecStopPost]"

definition all_limits :: "limit_kind list" where
  "all_limits =
    [LimitCpu, LimitFsize, LimitData, LimitStack, LimitCore, LimitRss, LimitNoFile, LimitAs,
     LimitNProc, LimitMemLock, LimitLocks, LimitSigPending, LimitMsgQueue, LimitNice,
     LimitRtPrio, LimitRtTime]"

definition truth :: "bool \<Rightarrow> string" where
  "truth b = (if b then ''true'' else ''false'')"

definition dep_lines :: "dep_kind list \<Rightarrow> (dep_kind \<Rightarrow> depmap) \<Rightarrow> (string \<times> string) list" where
  "dep_lines ks m = map (\<lambda>k. (dep_word k, join_with '' '' (gm_keys (m k)))) ks"

definition exec_lines :: "exec_kind list \<Rightarrow> (exec_kind \<Rightarrow> string list) \<Rightarrow> (string \<times> string) list" where
  "exec_lines ks m = concat (map (\<lambda>k. map (Pair (exec_word k)) (m k)) ks)"

definition limit_lines :: "limit_kind list \<Rightarrow> (limit_kind \<Rightarrow> string) \<Rightarrow> (string \<times> string) list" where
  "limit_lines ks m = map (\<lambda>k. (limit_word k, m k)) ks"

text \<open>The dependencies of which \<open>inst\<close> holds are written into the section \<open>[Install]\<close>, the others
  into \<open>[Unit]\<close>; \<open>tkey\<close> is the key of the stop timeout, which has two names.\<close>

definition render_def :: "(dep_kind \<Rightarrow> bool) \<Rightarrow> string \<Rightarrow> daemondef \<Rightarrow> document" where
  "render_def inst tkey d =
    [(''Unit'',
       [(''Description'', Description d)] @
       dep_lines (filter (\<lambda>k. \<not> inst k \<and> deps d k \<noteq> []) dep_kinds) (deps d) @
       [(''StopWhenUnneeded'', truth (StopWhenUnneeded d)), (''FailureAction'', FailureAction d),
        (''SuccessAction'', SuccessAction d)]),
     (''Service'',
       [(''Type'', ServiceType d), (''RemainAfterExit'', truth (RemainAfterExit d)),
        (''PIDFile'', PidFile d)] @
       exec_lines all_execs (execs d) @
       [(''ExecReload'', ExecReload d), (''RestartSec'', dec_digits (RestartSleep d div 1000000000)),
        (tkey, dec_digits (StopTimeout d div 1000000000)), (''Restart'', Restart d),
        (''WorkingDirectory'', WorkingDirectory d), (''User'', User d), (''Group'', Group d)] @
       map (Pair ''Environment'') (Env d) @ map (Pair ''EnvironmentFile'') (EnvFile d) @
       limit_lines all_limits (limits d)),
     (''Install'', dep_lines (filter (\<lambda>k. inst k \<and> deps d k \<noteq> []) dep_kinds) (deps d))]"

definition name_map :: "depmap \<Rightarrow> bool" where
  "name_map m = (gm_ok m \<and> list_all (\<lambda>(n, v). n \<noteq> [] \<and> CHR '' '' \<notin> set n \<and> v = None) m)"

definition whole_seconds :: "int \<Rightarrow> bool" where
  "whole_seconds t = (t mod 1000000000 = 0 \<and> 0 \<le> t \<and> t \<le> 9223372036000000000)"

section \<open>Groups of lines\<close>

lemma apply_append:
  "apply_assignments sec n (xs @ ys) d =
    (case apply_assignments sec n xs d of
       (d', Some e) \<Rightarrow> (d', Some e) | (d', None) \<Rightarrow> apply_assignments sec n ys d')"
  by (induction xs arbitrary: d) (auto split: prod.splits option.splits)

lemma unit_dep_key:
  "section_key SectionUnit n (to_upper (dep_word k)) v d = (set_dep k v d, None)"
  by (cases k) (simp_all add: section_key_def unit_key_def unit_dep_keys_def ascii_upper_def char_of_def bit_0)

lemma install_dep_key:
  "k \<in> {RequiredBy, WantedBy, UpheldBy} \<Longrightarrow>
   section_key SectionInstall n (to_upper (dep_word k)) v d = (set_dep k v d, None)"
  by (cases k) (simp_all add: section_key_def install_key_def ascii_upper_def char_of_def bit_0)

lemma exec_key:
  "\<not> str_contains n ''@'' \<Longrightarrow> section_key SectionService n (to_upper (exec_word k)) v d =
     (d\<lparr>execs := (execs d)(k := execs d k @ [v])\<rparr>, None)"
  by (cases k) (simp_all add: section_key_def service_key_def exec_keys_def exec_subst_def ascii_upper_def char_of_def bit_0)

lemma limit_key:
  "section_key SectionService n (to_upper (limit_word k)) v d = (d\<lparr>limits := (limits d)(k := v)\<rparr>, None)"
  by (cases k) (simp_all add: section_key_def service_key_def exec_keys_def limit_keys_def ascii_upper_def char_of_def bit_0)


lemma dep_assign_names: "name_map m \<Longrightarrow> m \<noteq> [] \<Longrightarrow> dep_assign (join_with '' '' (gm_keys m)) [] = m"
proof -
  assume m: "name_map m" "m \<noteq> []"
  let ?ns = "gm_keys m"
  have ns: "distinct ?ns" "\<forall>n \<in> set ?ns. CHR '' '' \<notin> set n" "\<forall>n \<in> set ?ns. n \<noteq> []"
    using m by (auto simp: name_map_def list_all_iff)
  have fold_new: "fold (\<lambda>v. AList.update v None) ns a = a @ map (\<lambda>n. (n, None)) ns"
    if "distinct ns" "set ns \<inter> set (gm_keys a) = {}" for ns :: "string list" and a :: depmap
    using that
  proof (induction ns arbitrary: a)
    case (Cons n ns)
    have "n \<notin> set (gm_keys b) \<Longrightarrow> AList.update n None b = b @ [(n, None)]" for b :: depmap
      by (induction b) auto
    then show ?case using Cons by auto
  qed simp
  have "map (\<lambda>n. (n, None)) ?ns = m"
    using m by (auto simp: name_map_def list_all_iff intro!: map_idI)
  moreover have "join_with '' '' ?ns \<noteq> []"
    using m ns(3) by (cases m; cases "tl m") auto
  moreover have "split_at (CHR '' '') (join_with '' '' ?ns) = ?ns"
    by (rule split_join) (use m ns in auto)
  ultimately show ?thesis using fold_new [OF ns(1), of "[]"] by (simp add: dep_assign_def)
qed

lemma apply_dep_lines:
  assumes "\<And>k v d. k \<in> set ks \<Longrightarrow> section_key sec n (to_upper (dep_word k)) v d = (set_dep k v d, None)"
    and "distinct ks" "\<And>k. k \<in> set ks \<Longrightarrow> deps d k = [] \<and> name_map (m k) \<and> m k \<noteq> []"
  shows "apply_assignments sec n (dep_lines ks m) d =
    (d\<lparr>deps := \<lambda>k. if k \<in> set ks then m k else deps d k\<rparr>, None)"
  using assms
proof (induction ks arbitrary: d)
  case Nil
  then show ?case by (simp add: dep_lines_def)
next
  case (Cons k ks)
  let ?d = "d\<lparr>deps := (deps d)(k := m k)\<rparr>"
  have "set_dep k (join_with '' '' (gm_keys (m k))) d = ?d"
    using Cons.prems(3) [of k] by (simp add: set_dep_def dep_assign_names)
  then have "apply_assignments sec n (dep_lines (k # ks) m) d = apply_assignments sec n (dep_lines ks m) ?d"
    using Cons.prems(1) [of k] by (simp add: dep_lines_def)
  also have "\<dots> = (?d\<lparr>deps := \<lambda>j. if j \<in> set ks then m j else deps ?d j\<rparr>, None)"
    using Cons.prems(2,3) by (intro Cons.IH Cons.prems(1)) auto
  also have "\<dots> = (d\<lparr>deps := \<lambda>j. if j \<in> set (k # ks) then m j else deps d j\<rparr>, None)"
    using Cons.prems(2) by (auto simp: fun_eq_iff)
  finally show ?case .
qed

lemma apply_exec_lines:
  assumes "\<not> str_contains n ''@''" "distinct ks"
  shows "apply_assignments SectionService n (exec_lines ks m) d =
    (d\<lparr>execs := \<lambda>k. if k \<in> set ks then execs d k @ m k else execs d k\<rparr>, None)"
proof -
  have one: "apply_assignments SectionService n (map (Pair (exec_word k)) cs) d =
      (d\<lparr>execs := (execs d)(k := execs d k @ cs)\<rparr>, None)" for k cs d
    by (induction cs arbitrary: d) (simp_all add: exec_key assms(1))
  show ?thesis using assms(2)
  proof (induction ks arbitrary: d)
    case (Cons k ks)
    have "exec_lines (k # ks) m = map (Pair (exec_word k)) (m k) @ exec_lines ks m"
      by (simp add: exec_lines_def)
    then have "apply_assignments SectionService n (exec_lines (k # ks) m) d =
      apply_assignments SectionService n (exec_lines ks m) (d\<lparr>execs := (execs d)(k := execs d k @ m k)\<rparr>)"
      by (simp add: apply_append one)
    with Cons show ?case by (auto simp: fun_eq_iff)
  qed (simp add: exec_lines_def)
qed

lemma apply_limit_lines:
  "distinct ks \<Longrightarrow> apply_assignments SectionService n (limit_lines ks m) d =
    (d\<lparr>limits := \<lambda>k. if k \<in> set ks then m k else limits d k\<rparr>, None)"
proof (induction ks arbitrary: d)
  case (Cons k ks)
  then show ?case by (auto simp: limit_lines_def limit_key fun_eq_iff)
qed (simp add: limit_lines_def)

lemma seconds_read:
  "whole_seconds t \<Longrightarrow> parse_systemd_duration (dec_digits (t div 1000000000)) = Inr t"
proof -
  assume t: "whole_seconds t"
  then have n: "0 \<le> t div 1000000000" "t div 1000000000 \<le> 9223372036" "1000000000 * (t div 1000000000) = t"
    by (auto simp: whole_seconds_def)
  note dd = dec_digits_ok [OF n(1)]
  show ?thesis using digits_are_seconds [of "dec_digits (t div 1000000000)"] dd n by simp
qed

lemma truth_read: "(to_lower (truth b) = ''true'') = b"
  by (cases b) (simp_all add: truth_def to_lower_def ascii_lower_def char_of_def bit_0)

text \<open>
  The definitions that can be written: the dependencies are names without a space and have no
  pointers yet, the durations are whole seconds, every line of the text is plain, and the service is
  no instance of a template (whose commands would get the instance for \<open>%i\<close>).
\<close>

definition writable :: "string \<Rightarrow> (dep_kind \<Rightarrow> bool) \<Rightarrow> string \<Rightarrow> daemondef \<Rightarrow> bool" where
  "writable n inst tkey d =
    (\<not> str_contains n ''@'' \<and> (\<forall>k. inst k \<longrightarrow> k \<in> {RequiredBy, WantedBy, UpheldBy}) \<and>
     tkey \<in> {''TimeoutSec'', ''TimeoutStopSec''} \<and> (\<forall>k. name_map (deps d k)) \<and>
     whole_seconds (RestartSleep d) \<and> whole_seconds (StopTimeout d) \<and>
     plain_document (render_def inst tkey d))"

lemma unit_text_keys:
  "section_key SectionUnit n (to_upper ''Description'') v d = (d\<lparr>Description := v\<rparr>, None)"
  "section_key SectionUnit n (to_upper ''StopWhenUnneeded'') (truth b) d = (d\<lparr>StopWhenUnneeded := b\<rparr>, None)"
  "section_key SectionUnit n (to_upper ''FailureAction'') v d = (d\<lparr>FailureAction := v\<rparr>, None)"
  "section_key SectionUnit n (to_upper ''SuccessAction'') v d = (d\<lparr>SuccessAction := v\<rparr>, None)"
  by (simp_all add: section_key_def unit_key_def unit_dep_keys_def truth_read ascii_upper_def char_of_def bit_0)

lemma service_text_keys:
  "section_key SectionService n (to_upper ''Type'') v d = (d\<lparr>ServiceType := v\<rparr>, None)"
  "section_key SectionService n (to_upper ''RemainAfterExit'') (truth b) d = (d\<lparr>RemainAfterExit := b\<rparr>, None)"
  "section_key SectionService n (to_upper ''PIDFile'') v d = (d\<lparr>PidFile := v\<rparr>, None)"
  "\<not> str_contains n ''@'' \<Longrightarrow> section_key SectionService n (to_upper ''ExecReload'') v d = (d\<lparr>ExecReload := v\<rparr>, None)"
  "section_key SectionService n (to_upper ''Restart'') v d = (d\<lparr>Restart := v\<rparr>, None)"
  "section_key SectionService n (to_upper ''WorkingDirectory'') v d = (d\<lparr>WorkingDirectory := v\<rparr>, None)"
  "section_key SectionService n (to_upper ''User'') v d = (d\<lparr>User := v\<rparr>, None)"
  "section_key SectionService n (to_upper ''Group'') v d = (d\<lparr>Group := v\<rparr>, None)"
  "section_key SectionService n (to_upper ''Environment'') v d = (d\<lparr>Env := Env d @ [v]\<rparr>, None)"
  "section_key SectionService n (to_upper ''EnvironmentFile'') v d = (d\<lparr>EnvFile := EnvFile d @ [v]\<rparr>, None)"
  by (simp_all add: section_key_def service_key_def exec_keys_def limit_keys_def exec_subst_def truth_read
      ascii_upper_def char_of_def bit_0)

lemma service_time_key:
  "section_key SectionService n (to_upper ''RestartSec'') v d =
     (case parse_systemd_duration v of Inl e \<Rightarrow> (d\<lparr>RestartSleep := 0\<rparr>, Some e) | Inr t \<Rightarrow> (d\<lparr>RestartSleep := t\<rparr>, None))"
  "section_key SectionService n (to_upper ''TimeoutSec'') v d =
     (case parse_systemd_duration v of Inl e \<Rightarrow> (d\<lparr>StopTimeout := 0\<rparr>, Some e) | Inr t \<Rightarrow> (d\<lparr>StopTimeout := t\<rparr>, None))"
  "section_key SectionService n (to_upper ''TimeoutStopSec'') v d =
     (case parse_systemd_duration v of Inl e \<Rightarrow> (d\<lparr>StopTimeout := 0\<rparr>, Some e) | Inr t \<Rightarrow> (d\<lparr>StopTimeout := t\<rparr>, None))"
  by (simp_all add: section_key_def service_key_def exec_keys_def limit_keys_def ascii_upper_def char_of_def bit_0)

lemma service_seconds:
  "whole_seconds t \<Longrightarrow>
     section_key SectionService n (to_upper ''RestartSec'') (dec_digits (t div 1000000000)) d = (d\<lparr>RestartSleep := t\<rparr>, None)"
  "whole_seconds t \<Longrightarrow> tkey \<in> {''TimeoutSec'', ''TimeoutStopSec''} \<Longrightarrow>
     section_key SectionService n (to_upper tkey) (dec_digits (t div 1000000000)) d = (d\<lparr>StopTimeout := t\<rparr>, None)"
  by (simp only: service_time_key seconds_read sum.case)
     (elim insertE emptyE; simp only: service_time_key seconds_read sum.case)

lemma apply_env_lines:
  "apply_assignments SectionService n (map (Pair ''Environment'') vs) d = (d\<lparr>Env := Env d @ vs\<rparr>, None)"
  "apply_assignments SectionService n (map (Pair ''EnvironmentFile'') vs) d = (d\<lparr>EnvFile := EnvFile d @ vs\<rparr>, None)"
  by (induction vs arbitrary: d) (simp_all del: to_upper.simps add: service_text_keys)

lemma document_headers:
  "section_header (''['' @ ''Unit'' @ '']'') = Some SectionUnit"
  "section_header (''['' @ ''Service'' @ '']'') = Some SectionService"
  "section_header (''['' @ ''Install'' @ '']'') = Some SectionInstall"
  by code_simp+

lemma kinds_all: "distinct dep_kinds" "distinct all_execs" "distinct all_limits"
  by (simp_all add: dep_kinds_def all_execs_def all_limits_def)

lemma set_kinds: "k \<in> set all_execs" "l \<in> set all_limits"
  by (cases k; simp add: all_execs_def) (cases l; simp add: all_limits_def)

lemma dep_section:
  assumes "\<And>k v d. P k \<Longrightarrow> section_key sec n (to_upper (dep_word k)) v d = (set_dep k v d, None)"
    and "\<forall>k. name_map (m k)" "\<And>k. P k \<Longrightarrow> deps d k = []"
  shows "apply_assignments sec n (dep_lines (filter (\<lambda>k. P k \<and> m k \<noteq> []) dep_kinds) m) d =
    (d\<lparr>deps := \<lambda>k. if P k then m k else deps d k\<rparr>, None)"
proof -
  let ?ks = "filter (\<lambda>k. P k \<and> m k \<noteq> []) dep_kinds"
  have "apply_assignments sec n (dep_lines ?ks m) d =
    (d\<lparr>deps := \<lambda>k. if k \<in> set ?ks then m k else deps d k\<rparr>, None)"
    by (rule apply_dep_lines) (use assms in \<open>simp_all add: kinds_all\<close>)
  moreover have "(\<lambda>k. if k \<in> set ?ks then m k else deps d k) = (\<lambda>k. if P k then m k else deps d k)"
    using assms(3) by (fastforce simp: set_dep_kinds)
  ultimately show ?thesis by simp
qed

lemma service_section:
  assumes "\<not> str_contains n ''@''" "tkey \<in> {''TimeoutSec'', ''TimeoutStopSec''}"
    and "whole_seconds (RestartSleep d)" "whole_seconds (StopTimeout d)"
    and "execs d0 = (\<lambda>_. [])" "limits d0 = (\<lambda>_. [])" "Env d0 = []" "EnvFile d0 = []"
  shows "apply_assignments SectionService n (snd (render_def inst tkey d ! 1)) d0 =
    (d\<lparr>Description := Description d0, deps := deps d0, StopWhenUnneeded := StopWhenUnneeded d0,
       FailureAction := FailureAction d0, SuccessAction := SuccessAction d0\<rparr>, None)"
proof -
  have "apply_assignments SectionService n (snd (render_def inst tkey d ! 1)) d0 =
    (d0\<lparr>ServiceType := ServiceType d, RemainAfterExit := RemainAfterExit d, PidFile := PidFile d,
        execs := execs d, ExecReload := ExecReload d, RestartSleep := RestartSleep d, StopTimeout := StopTimeout d,
        Restart := Restart d, WorkingDirectory := WorkingDirectory d, User := User d, Group := Group d,
        Env := Env d, EnvFile := EnvFile d, limits := limits d\<rparr>, None)"
    by (simp del: to_upper.simps add: render_def_def service_text_keys assms(1,5-8) service_seconds(1) [OF assms(3)]
       service_seconds(2) [OF assms(4,2)] apply_append apply_exec_lines apply_limit_lines apply_env_lines
       kinds_all set_kinds)
  then show ?thesis by simp
qed

section \<open>Properties\<close>

text \<open>
  C20. A definition written as a unit file is read back as itself: every field comes back under its
  documented key, in its section, and nothing else is set. The dependencies that \<open>[Install]\<close> knows may
  stand there or in \<open>[Unit]\<close>, and the stop timeout may have either of its two names.
\<close>

theorem unit_file_roundtrip:
  assumes "writable n inst tkey d"
  shows "load_unit_file n None (document_text (render_def inst tkey d)) = (d, None)"
proof -
  note w = assms [unfolded writable_def]
  define d1 where "d1 = empty_def\<lparr>Description := Description d,
    deps := \<lambda>k. if \<not> inst k then deps d k else [], StopWhenUnneeded := StopWhenUnneeded d,
    FailureAction := FailureAction d, SuccessAction := SuccessAction d\<rparr>"
  have "apply_assignments SectionUnit n (dep_lines (filter (\<lambda>k. \<not> inst k \<and> deps d k \<noteq> []) dep_kinds) (deps d))
       (empty_def\<lparr>Description := Description d\<rparr>)
     = (empty_def\<lparr>Description := Description d, deps := deps d1\<rparr>, None)"
    using w by (subst dep_section) (simp_all only: unit_dep_key, auto simp: empty_def_def d1_def)
  then have unit: "apply_assignments SectionUnit n (snd (render_def inst tkey d ! 0)) empty_def = (d1, None)"
    by (simp del: to_upper.simps add: render_def_def unit_text_keys apply_append) (simp add: d1_def)
  have service: "apply_assignments SectionService n (snd (render_def inst tkey d ! 1)) d1 = (d\<lparr>deps := deps d1\<rparr>, None)"
    using w by (subst service_section) (simp_all add: d1_def empty_def_def)
  have install: "apply_assignments SectionInstall n (snd (render_def inst tkey d ! 2)) (d\<lparr>deps := deps d1\<rparr>) = (d, None)"
  proof -
    have "apply_assignments SectionInstall n (dep_lines (filter (\<lambda>k. inst k \<and> deps d k \<noteq> []) dep_kinds) (deps d)) (d\<lparr>deps := deps d1\<rparr>)
      = (d\<lparr>deps := \<lambda>k. if inst k then deps d k else deps d1 k\<rparr>, None)"
      using w by (subst dep_section) (simp_all only: install_dep_key, simp_all add: d1_def cong: if_cong)
    moreover have "(\<lambda>k. if inst k then deps d k else deps d1 k) = deps d" by (auto simp: d1_def)
    ultimately show ?thesis by (simp add: render_def_def)
  qed
  have "apply_document n (render_def inst tkey d) empty_def = (d, None)"
    using unit service install document_headers by (simp add: render_def_def)
  then show ?thesis using load_document [of "render_def inst tkey d" n None] w by simp
qed

definition web_def :: daemondef where
  "web_def = empty_def\<lparr>Description := ''web server'',
     deps := (\<lambda>_. [])(Requires := [(''db'', None), (''net'', None)], WantedBy := [(''multi-user'', None)]),
     StopWhenUnneeded := True, execs := (\<lambda>_. [])(ExecStart := [''/bin/web -p 80'']), RestartSleep := 5000000000,
     Restart := ''always'', Env := [''A=1'', ''B=2''], limits := (\<lambda>_. [])(LimitNoFile := ''1024'')\<rparr>"

lemma unit_file_roundtrip_witness:
  "load_unit_file ''web'' None (document_text (render_def (\<lambda>k. k = WantedBy) ''TimeoutSec'' web_def)) = (web_def, None)"
proof -
  have "writable ''web'' (\<lambda>k. k = WantedBy) ''TimeoutSec'' web_def" by code_simp
  then show ?thesis by (rule unit_file_roundtrip)
qed

end
