(* ===== verification/GoBody.thy ===== *)
theory GoBody
  imports RegistryInv
begin

text \<open>
  Bodies of Go methods that return an error: a body runs on the state of the process and either
  goes on with a value (\<open>Next\<close>) or has executed a \<open>return\<close> (\<open>Return\<close>). \<open>go_bind\<close> is the
  sequence of two statements, \<open>go_for\<close> a loop over a list, \<open>go_call\<close> the call of another method and
  \<open>go_fun\<close> the method made of a body.

  \<open>env\<close> is the world outside the process: how commands end, which processes live, the users and
  the log files. It also holds the other goroutines (\<open>others\<close>), which run where the modelled call
  waits: before it looks at the state again (\<open>check_abort\<close>), while a command runs, while it polls.
\<close>

section \<open>Statements\<close>

datatype 'a flow = Next 'a | Return "derr option"

type_synonym 'a go = "sys \<Rightarrow> ('a flow \<times> sys) outcome"
type_synonym go_method = "sys \<Rightarrow> (derr option \<times> sys) outcome"

definition go_next :: "'a \<Rightarrow> 'a go" where
  "go_next x = (\<lambda>s. Done (Next x, s))"

definition go_return :: "derr option \<Rightarrow> 'a go" where
  "go_return e = (\<lambda>s. Done (Return e, s))"

definition go_bind :: "'a go \<Rightarrow> ('a \<Rightarrow> 'b go) \<Rightarrow> 'b go" where
  "go_bind m f = (\<lambda>s. andthen (m s) (\<lambda>(x, s').
     case x of Next a \<Rightarrow> f a s' | Return e \<Rightarrow> Done (Return e, s')))"

definition go_modify :: "(sys \<Rightarrow> sys) \<Rightarrow> unit go" where
  "go_modify f = (\<lambda>s. Done (Next (), f s))"

definition go_get :: "(sys \<Rightarrow> 'a) \<Rightarrow> 'a go" where
  "go_get f = (\<lambda>s. Done (Next (f s), s))"

definition go_call :: "go_method \<Rightarrow> derr option go" where
  "go_call m = (\<lambda>s. andthen (m s) (\<lambda>(e, s'). Done (Next e, s')))"

definition go_fun :: "unit go \<Rightarrow> go_method" where
  "go_fun m = (\<lambda>s. andthen (m s) (\<lambda>(x, s').
     case x of Next _ \<Rightarrow> Done (None, s') | Return e \<Rightarrow> Done (e, s')))"

fun go_for :: "('x \<Rightarrow> unit go) \<Rightarrow> 'x list \<Rightarrow> unit go" where
  "go_for f [] = go_next ()"
| "go_for f (x # xs) = go_bind (f x) (\<lambda>_. go_for f xs)"

section \<open>The world outside\<close>

record env =
  os_environ :: "string list"
  lookup_user :: "string \<Rightarrow> (string \<times> string) option"
  lookup_group :: "string \<Rightarrow> string option"
  current_uid :: "string option"
  log_opens :: "nat \<Rightarrow> bool"
  run_ends :: "nat \<Rightarrow> command_spec \<Rightarrow> bool"
  run_result :: "nat \<Rightarrow> command_spec \<Rightarrow> derr option"
  spawn_result :: "nat \<Rightarrow> command_spec \<Rightarrow> int option"
  alive :: "nat \<Rightarrow> int \<Rightarrow> bool"
  delay :: "nat \<Rightarrow> nat"
  others :: "nat \<Rightarrow> sys \<Rightarrow> sys"

text \<open>The other goroutines get their turn.\<close>

definition yield_to :: "env \<Rightarrow> sys \<Rightarrow> sys" where
  "yield_to E s = (others E (ticks s) s)\<lparr>ticks := ticks s + 1\<rparr>"

text \<open>An environment in which no other goroutine changes the state.\<close>

definition quiet :: "env \<Rightarrow> bool" where
  "quiet E = (\<forall>t s. others E t s = s)"

lemma yield_quiet: "quiet E \<Longrightarrow> yield_to E s = s\<lparr>ticks := ticks s + 1\<rparr>"
  by (simp add: quiet_def yield_to_def)

definition emit :: "event \<Rightarrow> sys \<Rightarrow> sys" where
  "emit e s = s\<lparr>events := events s @ [e]\<rparr>"

lemma emit_simps [simp]:
  "heap (emit e s) = heap s" "next_ref (emit e s) = next_ref s" "dlist (emit e s) = dlist s"
  "shutdown (emit e s) = shutdown s" "fs (emit e s) = fs s" "locks (emit e s) = locks s"
  "ticks (emit e s) = ticks s" "events (emit e s) = events s @ [e]"
  by (simp_all add: emit_def)

text \<open>
  \<open>procwait.Run\<close>: its error, nil exactly if the command ran and exited with status 0. It does not return
  if the command does not end, or if the reaper misses its end (\<open>ProcWait\<close> shows how).
\<close>

definition commands_end :: "env \<Rightarrow> bool" where
  "commands_end E = (\<forall>t c. run_ends E t c)"

definition run_command :: "env \<Rightarrow> ref \<Rightarrow> phase \<Rightarrow> command_spec \<Rightarrow> derr option go" where
  "run_command E p ph spec =
     (\<lambda>s. if run_ends E (ticks s) spec
           then Done (Next (run_result E (ticks s) spec), yield_to E (emit (RanCommand p ph spec) s))
           else Crash NeverReaped)"

text \<open>A command line without credentials and directory, in the environment of the process.\<close>

definition plain_spec :: "env \<Rightarrow> string \<Rightarrow> command_spec" where
  "plain_spec E line = \<lparr>cs_line = line, cs_env = os_environ E, cs_dir = [], cs_cred = None\<rparr>"

text \<open>\<open>d.def\<close>, dereferenced.\<close>

definition the_def :: "ref \<Rightarrow> daemondef go" where
  "the_def p = (\<lambda>s. case def (heap s p) of None \<Rightarrow> Crash NilDeref | Some d \<Rightarrow> Done (Next d, s))"

text \<open>\<open>d.Lock()\<close> for a lock that the call chain may hold.\<close>

definition take_lock :: "ref \<Rightarrow> unit go" where
  "take_lock p = (\<lambda>s. if p \<in> set (locks s) then Crash SelfDeadlock else Done (Next (), s))"

definition set_daemon :: "ref \<Rightarrow> (daemon \<Rightarrow> daemon) \<Rightarrow> unit go" where
  "set_daemon p f = go_modify (upd_daemon p f)"

text \<open>\<open>NewLogger\<close>: only whether the file could be opened matters to the callers.\<close>

definition new_logger :: "env \<Rightarrow> bool go" where
  "new_logger E = (\<lambda>s. Done (Next (log_opens E (ticks s)), s\<lparr>ticks := ticks s + 1\<rparr>))"

section \<open>Rules\<close>

lemma go_next_app [simp]: "go_next x s = Done (Next x, s)"
  and go_return_app [simp]: "go_return e s = Done (Return e, s)"
  and go_modify_app [simp]: "go_modify f s = Done (Next (), f s)"
  and go_get_app [simp]: "go_get g s = Done (Next (g s), s)"
  and set_daemon_app [simp]: "set_daemon p h s = Done (Next (), upd_daemon p h s)"
  and run_command_app [simp]: "run_command E p ph spec s = (if run_ends E (ticks s) spec
    then Done (Next (run_result E (ticks s) spec), yield_to E (emit (RanCommand p ph spec) s))
    else Crash NeverReaped)"
  and new_logger_app [simp]: "new_logger E s = Done (Next (log_opens E (ticks s)), s\<lparr>ticks := ticks s + 1\<rparr>)"
  by (simp_all add: go_next_def go_return_def go_modify_def go_get_def set_daemon_def run_command_def
      new_logger_def)

lemma go_bind_next: "m s = Done (Next a, s') \<Longrightarrow> go_bind m f s = f a s'"
  and go_bind_return: "m s = Done (Return e, s') \<Longrightarrow> go_bind m f s = Done (Return e, s')"
  and go_bind_crash: "m s = Crash c \<Longrightarrow> go_bind m f s = Crash c"
  and go_bind_diverge: "m s = Diverge \<Longrightarrow> go_bind m f s = Diverge"
  by (simp_all add: go_bind_def)

lemma go_bind_pure [simp]:
  "go_bind (go_next x) f = f x"
  "go_bind (go_return e) g = go_return e"
  by (simp_all add: go_bind_def go_next_def go_return_def fun_eq_iff)

lemma go_bind_assoc: "go_bind (go_bind m f) g = go_bind m (\<lambda>x. go_bind (f x) g)"
proof
  fix s
  show "go_bind (go_bind m f) g s = go_bind m (\<lambda>x. go_bind (f x) g) s"
  proof (cases "m s")
    case (Done r)
    then show ?thesis by (cases r; cases "fst r") (simp_all add: go_bind_def)
  qed (simp_all add: go_bind_def)
qed

lemma go_bind_step [simp]:
  "go_bind (go_modify m) f s = f () (m s)"
  "go_bind (set_daemon p k) f s = f () (upd_daemon p k s)"
  by (simp_all add: go_bind_def)

lemma go_bind_ask [simp]:
  "go_bind (go_get q) f s = f (q s) s"
  "go_bind (run_command E p ph spec) g s = (if run_ends E (ticks s) spec
     then g (run_result E (ticks s) spec) (yield_to E (emit (RanCommand p ph spec) s)) else Crash NeverReaped)"
  "go_bind (new_logger E) h s = h (log_opens E (ticks s)) (s\<lparr>ticks := ticks s + 1\<rparr>)"
  by (simp_all add: go_bind_def)

lemma go_bind_the_def: "def (heap s p) = Some d \<Longrightarrow> go_bind (the_def p) f s = f d s"
  by (simp add: go_bind_def the_def_def)

lemma go_bind_lock: "p \<notin> set (locks s) \<Longrightarrow> go_bind (take_lock p) f s = f () s"
  by (simp add: go_bind_def take_lock_def)

lemma go_fun_Next: "m s = Done (Next u, s') \<Longrightarrow> go_fun m s = Done (None, s')"
  and go_fun_Return: "m s = Done (Return e, s') \<Longrightarrow> go_fun m s = Done (e, s')"
  by (simp_all add: go_fun_def)

text \<open>A loop whose body goes on and applies a function to the state.\<close>

lemma go_for_fold:
  assumes "\<And>x s. x \<in> set xs \<Longrightarrow> P s \<Longrightarrow> f x s = Done (Next (), g x s) \<and> P (g x s)"
  shows "P s \<Longrightarrow> go_for f xs s = Done (Next (), fold g xs s) \<and> P (fold g xs s)"
  using assms
proof (induction xs arbitrary: s)
  case (Cons x xs)
  have "f x s = Done (Next (), g x s) \<and> P (g x s)" using Cons.prems by simp
  moreover from this have "go_for f xs (g x s) = Done (Next (), fold g xs (g x s)) \<and> P (fold g xs (g x s))"
    by (intro Cons.IH) (simp_all add: Cons.prems(2))
  ultimately show ?case by (simp add: go_bind_def)
qed simp

subsection \<open>How bodies end\<close>

text \<open>\<open>ends Q m\<close>: where a run of \<open>m\<close> ends, \<open>Q\<close> holds; \<open>goes_on m\<close>: \<open>m\<close> has no \<open>return\<close>.\<close>

definition ends :: "('a flow \<Rightarrow> sys \<Rightarrow> bool) \<Rightarrow> 'a go \<Rightarrow> bool" where
  "ends Q m = (\<forall>s x s'. m s = Done (x, s') \<longrightarrow> Q x s')"

definition goes_on :: "'a go \<Rightarrow> bool" where
  "goes_on m = (\<forall>s x s'. m s = Done (x, s') \<longrightarrow> (\<exists>a. x = Next a))"

lemma go_bind_DoneE:
  assumes "go_bind m f s = Done (x, s')"
  obtains (goes) a t where "m s = Done (Next a, t)" "f a t = Done (x, s')"
    | (returns) e where "m s = Done (Return e, s')" "x = Return e"
proof -
  from assms obtain y t where t: "m s = Done (y, t)"
    "(case y of Next a \<Rightarrow> f a t | Return e \<Rightarrow> Done (Return e, t)) = Done (x, s')"
    by (auto simp: go_bind_def andthen_Done_iff)
  then show thesis using that by (cases y) auto
qed

lemma go_fun_DoneE:
  assumes "go_fun m s = Done (e, s')"
  obtains y where "m s = Done (y, s')" "e = (case y of Next _ \<Rightarrow> None | Return e \<Rightarrow> e)"
proof -
  from assms obtain y t where t: "m s = Done (y, t)"
    "(case y of Next _ \<Rightarrow> Done (None, t) | Return e \<Rightarrow> Done (e, t)) = Done (e, s')"
    by (auto simp: go_fun_def andthen_Done_iff)
  have "t = s'" "e = (case y of Next _ \<Rightarrow> None | Return e \<Rightarrow> e)"
    using t(2) by (cases y; simp)+
  with t(1) that show thesis by blast
qed

lemma ends_bind: "goes_on m \<Longrightarrow> (\<And>a. ends Q (f a)) \<Longrightarrow> ends Q (go_bind m f)"
  unfolding ends_def goes_on_def by (blast elim: go_bind_DoneE)

lemma goes_on_bind: "goes_on m \<Longrightarrow> (\<And>a. goes_on (f a)) \<Longrightarrow> goes_on (go_bind m f)"
  unfolding goes_on_def by (blast elim: go_bind_DoneE)

lemma goes_on_pure: "goes_on (go_next x)" "goes_on (go_get f)" "goes_on (go_modify g)"
  "goes_on (set_daemon p h)" "goes_on (run_command E p ph spec)" "goes_on (new_logger E)" "goes_on (the_def p)"
  "goes_on (take_lock p)" "goes_on (go_call c)"
  by (auto simp: goes_on_def the_def_def take_lock_def go_call_def andthen_Done_iff split: option.splits if_splits)

lemma goes_on_for: "(\<And>x. goes_on (f x)) \<Longrightarrow> goes_on (go_for f xs)"
  by (induction xs) (auto intro: goes_on_pure goes_on_bind)

subsection \<open>Frames of bodies\<close>

text \<open>\<open>leaves R m\<close>: the states before and after a run of \<open>m\<close> that ends are related by \<open>R\<close>. For a
  \<open>frame\<close> it is enough to look at the single statements.\<close>

definition leaves :: "(sys \<Rightarrow> sys \<Rightarrow> bool) \<Rightarrow> 'a go \<Rightarrow> bool" where
  "leaves R m = (\<forall>s x s'. m s = Done (x, s') \<longrightarrow> R s s')"

definition method_leaves :: "(sys \<Rightarrow> sys \<Rightarrow> bool) \<Rightarrow> go_method \<Rightarrow> bool" where
  "method_leaves R m = (\<forall>s e s'. m s = Done (e, s') \<longrightarrow> R s s')"

lemma leavesD: "leaves R m \<Longrightarrow> m s = Done (x, s') \<Longrightarrow> R s s'"
  and method_leavesD: "method_leaves R n \<Longrightarrow> n s = Done (e, s') \<Longrightarrow> R s s'"
  by (auto simp: leaves_def method_leaves_def)

lemma leaves_modify: "(\<And>s. R s (f s)) \<Longrightarrow> leaves R (go_modify f)"
  by (simp add: leaves_def)

locale body_frame = frame rel for rel :: "sys \<Rightarrow> sys \<Rightarrow> bool"
begin

lemma leaves_pure: "leaves rel (go_next x)" "leaves rel (go_return e)" "leaves rel (go_get f)"
    "leaves rel (the_def p)" "leaves rel (take_lock p)"
  by (auto simp: leaves_def the_def_def take_lock_def frame_refl split: option.splits if_splits)

lemma leaves_bind:
  assumes "leaves rel m" "\<And>x. leaves rel (f x)"
  shows "leaves rel (go_bind m f)"
  unfolding leaves_def
proof (intro allI impI)
  fix s x s' assume "go_bind m f s = Done (x, s')"
  then obtain y t where t: "m s = Done (y, t)"
    "(case y of Next a \<Rightarrow> f a t | Return e \<Rightarrow> Done (Return e, t)) = Done (x, s')"
    by (auto simp: go_bind_def andthen_Done_iff)
  have "rel s t" using leavesD [OF assms(1) t(1)] .
  moreover have "rel t s'"
    using t(2) leavesD [OF assms(2)] frame_refl by (cases y) auto
  ultimately show "rel s s'" by (rule frame_trans)
qed

lemma leaves_for: "(\<And>x. x \<in> set xs \<Longrightarrow> leaves rel (f x)) \<Longrightarrow> leaves rel (go_for f xs)"
  by (induction xs) (auto intro: leaves_pure leaves_bind)

lemma leaves_call: "method_leaves rel m \<Longrightarrow> leaves rel (go_call m)"
  by (auto simp: leaves_def method_leaves_def go_call_def andthen_Done_iff)

lemma leaves_fun:
  assumes "leaves rel m"
  shows "method_leaves rel (go_fun m)"
  unfolding method_leaves_def
proof (intro allI impI)
  fix s e s' assume "go_fun m s = Done (e, s')"
  then obtain y t where t: "m s = Done (y, t)"
    "(case y of Next _ \<Rightarrow> Done (None, t) | Return e \<Rightarrow> Done (e, t)) = Done (e, s')"
    by (auto simp: go_fun_def andthen_Done_iff)
  then have "t = s'" by (cases y) auto
  with t(1) show "rel s s'" by (simp add: leavesD [OF assms])
qed

lemmas leaves_intros = leaves_pure leaves_bind leaves_for leaves_call

end

end
