(* ===== verification/DaemonRun.thy ===== *)
theory DaemonRun
  imports GoBody
begin

text \<open>
  Starting and stopping a service: \<open>start\<close>, \<open>stop\<close>, \<open>Restart\<close> and \<open>Reload\<close> of
  \<open>systemd/daemons/daemon.go\<close>, and \<open>LoadAndStart\<close> and \<open>StopAll\<close> of \<open>daemons.go\<close>. The body of \<open>start\<close> is
  cut into the parts its comments and blank lines mark; they run one after the other and share the
  early returns.

  \<^item> \<open>start\<close> calls itself on the dependencies. It gets fuel for the depth of the calls, \<open>Diverge\<close> is
    a run that needs more of it: a service whose start never returns has \<open>Diverge\<close> for all fuel.
  \<^item> The code takes and releases the daemon's lock around every look at its state. The only calls
    made with the lock held are those of \<open>runOnFailure\<close> and \<open>runOnSuccess\<close>, so only these enter it in
    \<open>locks\<close>; a call that finds the lock of its daemon there waits for ever (\<open>SelfDeadlock\<close>).
  \<^item> A \<open>range\<close> over a dependency map visits it in the order of the association list.
\<close>

section \<open>Stopping\<close>

definition stop_hook :: "env \<Rightarrow> ref \<Rightarrow> phase \<Rightarrow> string \<Rightarrow> string \<Rightarrow> unit go" where
  "stop_hook E p ph dir line =
     go_bind (run_command E p ph ((plain_spec E line)\<lparr>cs_dir := dir\<rparr>)) (\<lambda>err.
     case err of None \<Rightarrow> go_next ()
     | Some e \<Rightarrow> set_daemon p (\<lambda>d. d\<lparr>state_error := Some (PhaseFailed ph (dname d) line e)\<rparr>))"

text \<open>The processes of the commands that have one.\<close>

fun cmd_pids :: "cmd list \<Rightarrow> int list" where
  "cmd_pids [] = []"
| "cmd_pids (None # cs) = cmd_pids cs"
| "cmd_pids (Some pid # cs) = pid # cmd_pids cs"

definition signal_cmds :: "ref \<Rightarrow> string \<Rightarrow> sys \<Rightarrow> sys" where
  "signal_cmds p sig s =
     s\<lparr>events := events s @ map (\<lambda>pid. SentSignal p pid sig) (cmd_pids (cmds (heap s p)))\<rparr>"

text \<open>Whether a process of the daemon still runs: the loop stops at the first that does, and
  dereferences the process of every command before it.\<close>

fun any_alive :: "(int \<Rightarrow> bool) \<Rightarrow> cmd list \<Rightarrow> bool outcome" where
  "any_alive live [] = Done False"
| "any_alive live (None # cs) = Crash NilDeref"
| "any_alive live (Some pid # cs) = (if live pid then Done True else any_alive live cs)"

text \<open>
  The wait for the processes: polls every 10 ms until none lives or more than \<open>tout\<close> has passed.
  \<open>el\<close> is the time since the wait began; a poll takes at least its sleep, \<open>delay\<close> more. The result
  is \<open>exited\<close>.
\<close>

definition poll_pause :: int where "poll_pause = 10000000"

function wait_exit :: "env \<Rightarrow> ref \<Rightarrow> int \<Rightarrow> int \<Rightarrow> sys \<Rightarrow> (bool flow \<times> sys) outcome" where
  "wait_exit E p tout el s =
     (let el = el + poll_pause + int (delay E (ticks s)); t = ticks s; s = yield_to E s
      in andthen (any_alive (alive E t) (cmds (heap s p))) (\<lambda>some_alive.
           if \<not> some_alive then Done (Next True, s)
           else if el > tout then Done (Next False, s)
           else wait_exit E p tout el s))"
  by pat_completeness auto
termination
  by (relation "measure (\<lambda>(E, p, tout, el, s). nat (tout + 1 - el))") (auto simp: poll_pause_def)

declare wait_exit.simps [simp del]

definition stop_timeout :: "daemondef \<Rightarrow> int" where
  "stop_timeout d = (if StopTimeout d \<noteq> 0 then StopTimeout d else 5000000000)"

definition stop_kill :: "ref \<Rightarrow> bool \<Rightarrow> unit go" where
  "stop_kill p exited =
     (if exited then go_next ()
      else go_bind (go_modify (signal_cmds p ''SIGKILL'')) (\<lambda>_.
           set_daemon p (\<lambda>d. d\<lparr>state_error := Some SigkillApplied\<rparr>)))"

text \<open>From the stop hooks to the state \<open>StateStopped\<close>.\<close>

definition stop_run :: "env \<Rightarrow> ref \<Rightarrow> unit go" where
  "stop_run E p =
     go_bind (the_def p) (\<lambda>df.
     go_bind (go_for (stop_hook E p PhStopPre []) (execs df ExecStopPre)) (\<lambda>_.
     go_bind (the_def p) (\<lambda>df.
     go_bind (go_for (stop_hook E p PhStop (WorkingDirectory df)) (execs df ExecStop)) (\<lambda>_.
     go_bind (go_modify (signal_cmds p ''SIGTERM'')) (\<lambda>_.
     go_bind (the_def p) (\<lambda>df.
     go_bind (go_for (stop_hook E p PhStopPost []) (execs df ExecStopPost)) (\<lambda>_.
     go_bind (wait_exit E p (stop_timeout df) 0) (\<lambda>exited.
     go_bind (stop_kill p exited) (\<lambda>_.
     set_daemon p (\<lambda>d. d\<lparr>dstate := StateStopped\<rparr>))))))))))"

definition stop_body :: "env \<Rightarrow> bool \<Rightarrow> ref \<Rightarrow> unit go" where
  "stop_body E print_stopping p =
     go_bind (take_lock p) (\<lambda>_.
     go_bind (go_get (\<lambda>s. heap s p)) (\<lambda>dm.
     if is_masked dm then go_return (Some ServiceMasked)
     else
     go_bind (set_daemon p (\<lambda>d. if dstate d \<noteq> StateRestarting \<or> print_stopping
                                then d\<lparr>dstate := StateStopping\<rparr> else d)) (\<lambda>_.
     go_bind (new_logger E) (\<lambda>ok.
     if ok then stop_run E p
     else go_bind (set_daemon p (\<lambda>d. d\<lparr>state_error := Some LogOpenFailed\<rparr>)) (\<lambda>_.
          go_return (Some LogFileFailed))))))"

text \<open>A method on a pointer that may be nil: \<open>stop\<close> and \<open>start\<close> return at once then.\<close>

definition stop :: "env \<Rightarrow> bool \<Rightarrow> ref option \<Rightarrow> go_method" where
  "stop E print_stopping p =
     (case p of None \<Rightarrow> (\<lambda>s. Done (None, s)) | Some p \<Rightarrow> go_fun (stop_body E print_stopping p))"

section \<open>Starting\<close>

definition check_abort :: "env \<Rightarrow> ref \<Rightarrow> unit go" where
  "check_abort E p =
     go_bind (go_modify (yield_to E)) (\<lambda>_ s.
       if is_shutting_down s then Done (Return (Some (StartAbortedShutdown (dname (heap s p)))), s)
       else if dstate (heap s p) = StateStopping
            then Done (Return (Some (StartAbortedStop (dname (heap s p)))), s)
            else Done (Next (), s))"

subsection \<open>The environment and the credentials of the commands\<close>

text \<open>The environment files, in order; a name after \<open>-\<close> may be missing.\<close>

fun read_env_files :: "filesys \<Rightarrow> string list \<Rightarrow> string list \<Rightarrow> derr + string list" where
  "read_env_files f [] denv = Inr denv"
| "read_env_files f (ef # efs) denv =
     (let fail = \<not> has_prefix ef ''-''; ef = (if fail then ef else trim_prefix ef ''-'')
      in case fs_read_file f ef of
           None \<Rightarrow> if fail then Inl (EnvFileNotFound ef) else read_env_files f efs denv
         | Some ct \<Rightarrow> read_env_files f efs (denv @ split_at (CHR 0x0A) ct))"

definition start_env :: "env \<Rightarrow> daemondef \<Rightarrow> string list go" where
  "start_env E df = (\<lambda>s. case read_env_files (fs s) (EnvFile df) (os_environ E @ Env df) of
      Inl e \<Rightarrow> Done (Return (Some e), s) | Inr denv \<Rightarrow> Done (Next denv, s))"

text \<open>\<open>strconv.ParseInt(s, 10, 32)\<close> with its error ignored.\<close>

definition parse_int32 :: "string \<Rightarrow> int" where
  "parse_int32 s = (case atoi s of (_, Some ErrSyntax) \<Rightarrow> 0
                    | (v, _) \<Rightarrow> max (- 2147483648) (min 2147483647 v))"

definition start_ids :: "env \<Rightarrow> daemondef \<Rightarrow> (int \<times> int) go" where
  "start_ids E df =
     go_bind (if User df = [] then go_next (0, 0)
              else case lookup_user E (User df) of
                None \<Rightarrow> go_return (Some (UserNotFound (User df)))
              | Some (u, g) \<Rightarrow> go_next (parse_int32 u, parse_int32 g)) (\<lambda>(uid, gid).
     if Group df = [] then go_next (uid, gid)
     else case lookup_group E (Group df) of
       None \<Rightarrow> go_return (Some (UserNotFound (User df)))
     | Some g \<Rightarrow>
         if uid \<noteq> 0 then go_next (uid, parse_int32 g)
         else case current_uid E of
           None \<Rightarrow> go_return (Some (UserNotFound (User df)))
         | Some u \<Rightarrow> go_next (parse_int32 u, parse_int32 g))"

text \<open>\<open>uint32(uid)\<close> and \<open>uint32(gid)\<close>, if the user is not root.\<close>

definition credential :: "int \<times> int \<Rightarrow> (int \<times> int) option" where
  "credential ids = (if fst ids = 0 then None else Some (fst ids mod 2 ^ 32, snd ids mod 2 ^ 32))"

subsection \<open>Other daemons\<close>

type_synonym starter = "ref option \<Rightarrow> bool \<Rightarrow> go_method"

text \<open>\<open>runOnFailure\<close> and \<open>runOnSuccess\<close>: with the lock held, errors are only logged.\<close>

definition run_linked :: "starter \<Rightarrow> dep_kind \<Rightarrow> ref \<Rightarrow> unit go" where
  "run_linked rec k p =
     go_bind (the_def p) (\<lambda>df.
     go_bind (go_modify (\<lambda>s. s\<lparr>locks := p # locks s\<rparr>)) (\<lambda>_.
     go_bind (go_for (\<lambda>(_, i). go_bind (go_call (rec i False)) (\<lambda>_. go_next ())) (deps df k)) (\<lambda>_.
     go_modify (\<lambda>s. s\<lparr>locks := tl (locks s)\<rparr>))))"

text \<open>How \<open>start\<close> gives up: stopped, with an error for the status, and \<open>OnFailure\<close> run.\<close>

definition give_up :: "starter \<Rightarrow> ref \<Rightarrow> derr \<Rightarrow> derr option \<Rightarrow> 'a go" where
  "give_up rec p serr ret =
     go_bind (set_daemon p (\<lambda>d. d\<lparr>dstate := StateStopped, state_error := Some serr\<rparr>)) (\<lambda>_.
     go_bind (run_linked rec OnFailure p) (\<lambda>_. go_return ret))"

text \<open>\<open>i.Name()\<close> of a dependency that failed.\<close>

definition name_of :: "ref option \<Rightarrow> string go" where
  "name_of i = (\<lambda>s. case i of None \<Rightarrow> Crash NilDeref | Some q \<Rightarrow> Done (Next (dname (heap s q)), s))"

text \<open>\<open>Requisite\<close>: every dependency must run already. The \<open>err\<close> that the code reports and returns
  here is the one of \<open>NewLogger\<close>, which is nil.\<close>

definition require_running :: "env \<Rightarrow> starter \<Rightarrow> ref \<Rightarrow> string \<times> ref option \<Rightarrow> unit go" where
  "require_running E rec p dep =
     go_bind (check_abort E p) (\<lambda>_.
     case snd dep of
       None \<Rightarrow> (\<lambda>_. Crash NilDeref)
     | Some q \<Rightarrow>
         go_bind (take_lock q) (\<lambda>_.
         go_bind (go_get (\<lambda>s. heap s q)) (\<lambda>dm.
         if dstate dm = StateRunning then go_next ()
         else give_up rec p (DepNotRunning (dname dm)) None)))"

text \<open>\<open>Requires\<close>, \<open>BindsTo\<close> and \<open>Conflicts\<close>: a call that must succeed.\<close>

definition must_succeed :: "env \<Rightarrow> starter \<Rightarrow> (ref option \<Rightarrow> go_method) \<Rightarrow> ref \<Rightarrow> string \<times> ref option \<Rightarrow> unit go" where
  "must_succeed E rec act p dep =
     go_bind (check_abort E p) (\<lambda>_.
     go_bind (go_call (act (snd dep))) (\<lambda>err.
     case err of
       None \<Rightarrow> go_next ()
     | Some e \<Rightarrow> go_bind (name_of (snd dep)) (\<lambda>n. give_up rec p (DepFailed n e) (Some e))))"

text \<open>\<open>Wants\<close> and \<open>Upholds\<close>: errors are only logged.\<close>

definition may_fail :: "env \<Rightarrow> starter \<Rightarrow> ref \<Rightarrow> string \<times> ref option \<Rightarrow> unit go" where
  "may_fail E rec p dep =
     go_bind (check_abort E p) (\<lambda>_. go_bind (go_call (rec (snd dep) False)) (\<lambda>_. go_next ()))"

definition start_deps :: "env \<Rightarrow> starter \<Rightarrow> ref \<Rightarrow> unit go" where
  "start_deps E rec p =
     go_bind (the_def p) (\<lambda>df. go_bind (go_for (require_running E rec p) (deps df Requisite)) (\<lambda>_.
     go_bind (the_def p) (\<lambda>df. go_bind (go_for (must_succeed E rec (\<lambda>i. rec i False) p) (deps df Requires)) (\<lambda>_.
     go_bind (the_def p) (\<lambda>df. go_bind (go_for (must_succeed E rec (\<lambda>i. rec i False) p) (deps df BindsTo)) (\<lambda>_.
     go_bind (the_def p) (\<lambda>df. go_bind (go_for (may_fail E rec p) (deps df Wants)) (\<lambda>_.
     go_bind (the_def p) (\<lambda>df. go_bind (go_for (may_fail E rec p) (deps df Upholds)) (\<lambda>_.
     go_bind (the_def p) (\<lambda>df. go_for (must_succeed E rec (stop E True) p) (deps df Conflicts))))))))))))"

subsection \<open>The commands\<close>

definition condition_line :: "env \<Rightarrow> ref \<Rightarrow> string list \<Rightarrow> string \<Rightarrow> unit go" where
  "condition_line E p denv line =
     go_bind (check_abort E p) (\<lambda>_.
     go_bind (run_command E p PhCondition ((plain_spec E line)\<lparr>cs_env := denv\<rparr>)) (\<lambda>err.
     case err of
       None \<Rightarrow> go_next ()
     | Some _ \<Rightarrow> go_bind (set_daemon p (\<lambda>d. d\<lparr>dstate := StateStopped, state_error := None\<rparr>)) (\<lambda>_.
                 go_return None)))"

definition fail_on_err :: "string \<Rightarrow> bool" where
  "fail_on_err line = (\<not> has_prefix line ''-'')"

text \<open>A command of \<open>start\<close> failed: \<open>d.Stop()\<close>, then give up with its error.\<close>

definition phase_failed :: "env \<Rightarrow> starter \<Rightarrow> ref \<Rightarrow> phase \<Rightarrow> string \<Rightarrow> derr \<Rightarrow> 'a go" where
  "phase_failed E rec p ph line e =
     go_bind (go_call (stop E True (Some p))) (\<lambda>_.
     go_bind (go_get (\<lambda>s. dname (heap s p))) (\<lambda>n.
     give_up rec p (PhaseFailed ph n line e) (Some e)))"

definition run_line :: "env \<Rightarrow> starter \<Rightarrow> ref \<Rightarrow> phase \<Rightarrow> string list \<Rightarrow> string \<Rightarrow> unit go" where
  "run_line E rec p ph denv line0 =
     go_bind (check_abort E p) (\<lambda>_.
     let line = trim_prefix line0 ''-'' in
     go_bind (run_command E p ph ((plain_spec E line)\<lparr>cs_env := denv\<rparr>)) (\<lambda>err.
     case err of
       None \<Rightarrow> go_next ()
     | Some e \<Rightarrow> if fail_on_err line0 then phase_failed E rec p ph line e else go_next ()))"

definition spawn :: "env \<Rightarrow> ref \<Rightarrow> command_spec \<Rightarrow> cmd go" where
  "spawn E p spec =
     (\<lambda>s. let r = spawn_result E (ticks s) spec
          in Done (Next r, yield_to E (if r = None then s else emit (Spawned p spec) s)))"

definition spawn_line ::
    "env \<Rightarrow> starter \<Rightarrow> ref \<Rightarrow> string list \<Rightarrow> int \<times> int \<Rightarrow> string \<Rightarrow> cmd go" where
  "spawn_line E rec p denv ids line0 =
     go_bind (check_abort E p) (\<lambda>_.
     let line = trim_prefix line0 ''-'' in
     go_bind (the_def p) (\<lambda>df.
     go_bind (go_get (\<lambda>s. dname (heap s p))) (\<lambda>n.
     go_bind (spawn E p \<lparr>cs_line = line, cs_env = denv @ [''SYSTEMD_SERVICE_NAME='' @ n],
                         cs_dir = WorkingDirectory df, cs_cred = credential ids\<rparr>) (\<lambda>c.
     if c = None \<and> fail_on_err line0 then phase_failed E rec p PhStart line ProcessNotStarted
     else go_next c))))"

fun spawn_lines ::
    "env \<Rightarrow> starter \<Rightarrow> ref \<Rightarrow> string list \<Rightarrow> int \<times> int \<Rightarrow> string list \<Rightarrow> cmd list go" where
  "spawn_lines E rec p denv ids [] = go_next []"
| "spawn_lines E rec p denv ids (l # ls) =
     go_bind (spawn_line E rec p denv ids l) (\<lambda>c.
     go_bind (spawn_lines E rec p denv ids ls) (\<lambda>cs. go_next (c # cs)))"

subsection \<open>The method\<close>

definition limit_kinds :: "limit_kind list" where
  "limit_kinds =
    [LimitCpu, LimitFsize, LimitData, LimitStack, LimitCore, LimitRss, LimitNoFile, LimitAs,
     LimitNProc, LimitMemLock, LimitLocks, LimitSigPending, LimitMsgQueue, LimitNice,
     LimitRtPrio, LimitRtTime]"

definition limit_warnings :: "string \<Rightarrow> daemondef \<Rightarrow> event list" where
  "limit_warnings n df =
     map (\<lambda>k. LimitWarning n k (limits df k)) (filter (\<lambda>k. limits df k \<noteq> []) limit_kinds)"

text \<open>Up to the first release of the lock.\<close>

definition start_guard :: "ref \<Rightarrow> bool \<Rightarrow> unit go" where
  "start_guard p manual =
     go_bind (go_get (\<lambda>s. (is_shutting_down s, dname (heap s p)))) (\<lambda>(down, n).
     if down then go_return (Some (StartShuttingDown n))
     else
     go_bind (take_lock p) (\<lambda>_.
     go_bind (go_get (\<lambda>s. heap s p)) (\<lambda>dm.
     if dstate dm = StateStarting then go_return None
     else if dstate dm = StateStopping then go_return None
     else if is_masked dm then go_return (Some ServiceMasked)
     else
     go_bind (the_def p) (\<lambda>df.
     go_bind (go_modify (\<lambda>s. s\<lparr>events := events s @ limit_warnings (dname dm) df\<rparr>)) (\<lambda>_.
     go_bind (set_daemon p (\<lambda>d. if manual then d\<lparr>is_manual := True\<rparr> else d)) (\<lambda>_.
     if dstate dm = StateRunning then go_return None
     else
     go_bind (set_daemon p (\<lambda>d. if dstate d \<noteq> StateRestarting then d\<lparr>dstate := StateStarting\<rparr> else d)) (\<lambda>_.
     go_modify (upd_def p (\<lambda>df. if ServiceType df = ''oneshot'' then df\<lparr>RemainAfterExit := True\<rparr> else df)))))))))"

text \<open>The old run is stopped first.\<close>

definition start_cleanup :: "env \<Rightarrow> ref \<Rightarrow> unit go" where
  "start_cleanup E p =
     go_bind (check_abort E p) (\<lambda>_.
     go_bind (go_call (stop E False (Some p))) (\<lambda>err.
     go_bind (check_abort E p) (\<lambda>_.
     case err of
       None \<Rightarrow> set_daemon p (\<lambda>d. d\<lparr>state_error := None\<rparr>)
     | Some e \<Rightarrow> go_bind (set_daemon p (\<lambda>d. d\<lparr>dstate := StateStopped, state_error := Some e\<rparr>)) (\<lambda>_.
                 go_return (Some (CleanupFailed e))))))"

definition start_logger :: "env \<Rightarrow> ref \<Rightarrow> unit go" where
  "start_logger E p =
     go_bind (new_logger E) (\<lambda>ok.
     if ok then go_next ()
     else go_bind (set_daemon p (\<lambda>d. d\<lparr>dstate := StateStopped, state_error := Some LogOpenFailed\<rparr>)) (\<lambda>_.
          go_return (Some LogFileFailed)))"

text \<open>The last part, under the lock.\<close>

definition start_finish :: "env \<Rightarrow> starter \<Rightarrow> ref \<Rightarrow> cmd list \<Rightarrow> unit go" where
  "start_finish E rec p cs =
     go_bind (go_modify (yield_to E)) (\<lambda>_.
     go_bind (go_get (\<lambda>s. dstate (heap s p))) (\<lambda>st.
     if st = StateStopping then go_return (Some StateChangedStopping)
     else
     go_bind (set_daemon p (\<lambda>d. d\<lparr>dstate := StateRunning, state_error := None\<rparr>)) (\<lambda>_.
     go_bind (run_linked rec OnSuccess p) (\<lambda>_.
     go_bind (set_daemon p (\<lambda>d. d\<lparr>cmds := cs\<rparr>)) (\<lambda>_.
     go_modify (emit (MonitorForked p)))))))"

text \<open>The commands, once the dependencies are there.\<close>

definition start_commands :: "env \<Rightarrow> starter \<Rightarrow> ref \<Rightarrow> string list \<Rightarrow> int \<times> int \<Rightarrow> unit go" where
  "start_commands E rec p denv ids =
     go_bind (the_def p) (\<lambda>df.
     go_bind (go_for (run_line E rec p PhStartPre denv) (execs df ExecStartPre)) (\<lambda>_.
     go_bind (the_def p) (\<lambda>df.
     go_bind (spawn_lines E rec p denv ids (execs df ExecStart)) (\<lambda>cs.
     go_bind (the_def p) (\<lambda>df.
     go_bind (go_for (run_line E rec p PhStartPost denv) (execs df ExecStartPost)) (\<lambda>_.
     start_finish E rec p cs))))))"

definition start_body :: "env \<Rightarrow> starter \<Rightarrow> ref \<Rightarrow> bool \<Rightarrow> unit go" where
  "start_body E rec p manual =
     go_bind (start_guard p manual) (\<lambda>_.
     go_bind (start_cleanup E p) (\<lambda>_.
     go_bind (the_def p) (\<lambda>df.
     go_bind (start_env E df) (\<lambda>denv.
     go_bind (start_ids E df) (\<lambda>ids.
     go_bind (start_logger E p) (\<lambda>_.
     go_bind (go_for (condition_line E p denv) (execs df ExecCondition)) (\<lambda>_.
     go_bind (start_deps E rec p) (\<lambda>_.
     start_commands E rec p denv ids))))))))"

fun start :: "nat \<Rightarrow> env \<Rightarrow> ref option \<Rightarrow> bool \<Rightarrow> go_method" where
  "start 0 E p manual s = Diverge"
| "start (Suc n) E None manual s = Done (None, s)"
| "start (Suc n) E (Some p) manual s = go_fun (start_body E (start n E) p manual) s"

section \<open>Restart and reload\<close>

definition restart_body :: "nat \<Rightarrow> env \<Rightarrow> ref \<Rightarrow> unit go" where
  "restart_body n E p =
     go_bind (take_lock p) (\<lambda>_.
     go_bind (go_get (\<lambda>s. heap s p)) (\<lambda>dm.
     if is_masked dm then go_return (Some ServiceMasked)
     else if dstate dm = StateRestarting \<or> dstate dm = StateStopping \<or> dstate dm = StateStarting
     then go_return (Some (WrongState (dname dm)))
     else
     go_bind (set_daemon p (\<lambda>d. d\<lparr>dstate := StateRestarting\<rparr>)) (\<lambda>_.
     go_bind (go_call (stop E True (Some p))) (\<lambda>err.
     case err of
       Some e \<Rightarrow> go_return (Some e)
     | None \<Rightarrow>
         go_bind (go_modify (yield_to E)) (\<lambda>_.
         go_bind (go_get (\<lambda>s. heap s p)) (\<lambda>dm.
         if dstate dm = StateStopping then go_return (Some (StartAbortedStop (dname dm)))
         else go_bind (go_call (start n E (Some p) True)) go_return))))))"

definition restart :: "nat \<Rightarrow> env \<Rightarrow> ref \<Rightarrow> go_method" where
  "restart n E p = go_fun (restart_body n E p)"

fun send_hup :: "ref \<Rightarrow> cmd list \<Rightarrow> unit go" where
  "send_hup p [] = go_next ()"
| "send_hup p (None # cs) = (\<lambda>_. Crash NilDeref)"
| "send_hup p (Some pid # cs) = go_bind (go_modify (emit (SentSignal p pid ''SIGHUP''))) (\<lambda>_. send_hup p cs)"

definition reload_body :: "env \<Rightarrow> ref \<Rightarrow> unit go" where
  "reload_body E p =
     go_bind (take_lock p) (\<lambda>_.
     go_bind (go_get (\<lambda>s. heap s p)) (\<lambda>dm.
     if is_masked dm then go_return (Some ServiceMasked)
     else if dstate dm \<noteq> StateRunning then go_return (Some (WrongState (dname dm)))
     else
     go_bind (the_def p) (\<lambda>df.
     if ExecReload df \<noteq> []
     then go_bind (run_command E p PhReload (plain_spec E (ExecReload df))) (\<lambda>err.
          case err of None \<Rightarrow> go_next () | Some e \<Rightarrow> go_return (Some (ReloadFailed e)))
     else go_bind (go_get (\<lambda>s. cmds (heap s p))) (send_hup p))))"

definition reload_daemon :: "env \<Rightarrow> ref \<Rightarrow> go_method" where
  "reload_daemon E p = go_fun (reload_body E p)"

section \<open>The whole registry\<close>

definition wants_dir :: string where
  "wants_dir = ''/etc/systemd/system/multi-user.target.wants''"

text \<open>\<open>LoadAndStart\<close>: the services with a file in the directory of the target, in name order; a name
  that is not listed gives a nil daemon, on which \<open>Start\<close> does nothing.\<close>

definition start_wanted :: "nat \<Rightarrow> env \<Rightarrow> string \<times> bool \<Rightarrow> unit go" where
  "start_wanted n E entry =
     (let (fname, is_dir) = entry in
      if is_dir \<or> \<not> has_suffix fname ''.service'' then go_next ()
      else go_bind (go_get (\<lambda>s. map_of (dlist s) (trim_suffix fname ''.service''))) (\<lambda>p.
           go_bind (go_call (start n E p True)) (\<lambda>_. go_next ())))"

definition load_and_start :: "range_order \<Rightarrow> nat \<Rightarrow> env \<Rightarrow> go_method" where
  "load_and_start ord n E s =
     andthen (ds_reload ord s) (\<lambda>s.
       case fs_readdir (fs s) wants_dir of
         None \<Rightarrow> Done (None, s)
       | Some entries \<Rightarrow> go_fun (go_for (start_wanted n E) entries) s)"

definition stop_listed :: "env \<Rightarrow> string \<times> ref \<Rightarrow> unit go" where
  "stop_listed E entry =
     go_bind (go_get (\<lambda>s. dstate (heap s (snd entry)))) (\<lambda>st.
     if st = StateStopped \<or> st = StateStopping then go_next ()
     else go_bind (go_call (stop E True (Some (snd entry)))) (\<lambda>_. go_next ()))"

definition stop_all :: "range_order \<Rightarrow> env \<Rightarrow> go_method" where
  "stop_all ord E s =
     (let s = s\<lparr>shutdown := True\<rparr> in go_fun (go_for (stop_listed E) (ord (dlist s))) s)"

end
