(* ===== verification/StopProps.thy ===== *)
theory StopProps
  imports DaemonRun
begin

text \<open>
  What a stop does and how it can end. \<open>stop_events\<close> is the specification of its effects; the trace is
  stated for an environment in which no other goroutine interferes, the results for any.
\<close>


section \<open>Polling\<close>

lemma any_alive_pids:
  "None \<notin> set cs \<Longrightarrow> any_alive live cs = Done (\<exists>pid \<in> set (cmd_pids cs). live pid)"
  by (induction live cs rule: any_alive.induct) auto

text \<open>The time that has passed at the poll number \<open>n\<close>, if the polling begins at tick \<open>t\<close>.\<close>

definition waited :: "env \<Rightarrow> nat \<Rightarrow> nat \<Rightarrow> int" where
  "waited E t n = (\<Sum>i<n. poll_pause + int (delay E (t + i)))"

lemma waited_Suc: "waited E t (Suc n) = poll_pause + int (delay E t) + waited E (Suc t) n"
  unfolding waited_def by (subst sum.lessThan_Suc_shift) simp

text \<open>
  How a polling ends: after \<open>n\<close> polls, the first at which no process lives (\<open>exited\<close>) or more than the
  timeout has passed.
\<close>

definition polled :: "env \<Rightarrow> int list \<Rightarrow> int \<Rightarrow> nat \<Rightarrow> nat \<Rightarrow> bool \<Rightarrow> bool" where
  "polled E ps tout t n exited \<longleftrightarrow> 0 < n \<and>
     exited = (\<forall>pid \<in> set ps. \<not> alive E (t + n - 1) pid) \<and>
     (\<not> exited \<longrightarrow> tout < waited E t n) \<and>
     (\<forall>k. 0 < k \<and> k < n \<longrightarrow> (\<exists>pid \<in> set ps. alive E (t + k - 1) pid) \<and> waited E t k \<le> tout)"

lemma polled_one:
  "\<not> live \<or> tout < poll_pause + int (delay E t) \<Longrightarrow> live = (\<exists>pid \<in> set ps. alive E t pid) \<Longrightarrow>
   polled E ps tout t 1 (\<not> live)"
  by (auto simp: polled_def waited_def)

lemma polled_more:
  assumes "polled E ps (tout - (poll_pause + int (delay E t))) (Suc t) n b"
    and "\<exists>pid \<in> set ps. alive E t pid" "poll_pause + int (delay E t) \<le> tout"
  shows "polled E ps tout t (Suc n) b"
proof -
  let ?d = "poll_pause + int (delay E t)"
  from assms(1) have n: "0 < n" "b = (\<forall>pid \<in> set ps. \<not> alive E (Suc t + n - 1) pid)"
      "\<not> b \<longrightarrow> tout - ?d < waited E (Suc t) n"
    and before: "\<And>k. 0 < k \<Longrightarrow> k < n \<Longrightarrow>
      (\<exists>pid \<in> set ps. alive E (Suc t + k - 1) pid) \<and> waited E (Suc t) k \<le> tout - ?d"
    by (simp_all add: polled_def)
  have "(\<exists>pid \<in> set ps. alive E (t + k - 1) pid) \<and> waited E t k \<le> tout" if k: "0 < k" "k < Suc n" for k
  proof (cases "k = 1")
    case True
    with assms(2,3) show ?thesis by (simp add: waited_def)
  next
    case False
    then obtain j where j: "k = Suc j" "0 < j" using k(1) by (cases k) auto
    with before [of j] k(2) show ?thesis by (simp add: waited_Suc)
  qed
  moreover have "tout < waited E t (Suc n)" if "\<not> b" using n(3) that by (simp add: waited_Suc)
  moreover have "b = (\<forall>pid \<in> set ps. \<not> alive E (t + Suc n - 1) pid)" using n(2) by simp
  ultimately show ?thesis unfolding polled_def by blast
qed

lemma wait_exit_quiet:
  assumes "quiet E" "None \<notin> set (cmds (heap s p))"
  shows "\<exists>n b. wait_exit E p tout el s = Done (Next b, s\<lparr>ticks := ticks s + n\<rparr>) \<and>
    polled E (cmd_pids (cmds (heap s p))) (tout - el) (ticks s) n b"
  using assms
proof (induction E p tout el s rule: wait_exit.induct)
  case (1 E p tout el s)
  let ?pids = "cmd_pids (cmds (heap s p))"
  let ?el = "el + poll_pause + int (delay E (ticks s))"
  let ?s = "s\<lparr>ticks := ticks s + 1\<rparr>"
  let ?live = "\<exists>pid \<in> set ?pids. alive E (ticks s) pid"
  have eq: "wait_exit E p tout el s =
      (if \<not> ?live then Done (Next True, ?s)
       else if ?el > tout then Done (Next False, ?s) else wait_exit E p tout ?el ?s)"
    using "1.prems" by (subst wait_exit.simps) (simp add: Let_def yield_quiet any_alive_pids)
  show ?case
  proof (cases "?live \<and> ?el \<le> tout")
    case False
    then have "polled E ?pids (tout - el) (ticks s) 1 (\<not> ?live)" by (intro polled_one) auto
    with False show ?thesis unfolding eq
      by (intro exI [of _ 1] exI [of _ "\<not> ?live"]) auto
  next
    case True
    then obtain n b where n: "wait_exit E p tout ?el ?s = Done (Next b, ?s\<lparr>ticks := ticks ?s + n\<rparr>)"
      "polled E ?pids (tout - ?el) (ticks ?s) n b"
      using "1.IH" [OF refl refl refl, of True] "1.prems"
      by (simp add: yield_quiet any_alive_pids) blast
    have "polled E ?pids (tout - el) (ticks s) (Suc n) b"
      using n(2) True by (intro polled_more) (simp_all add: algebra_simps)
    with n(1) True show ?thesis unfolding eq by (intro exI [of _ "Suc n"] exI [of _ b]) simp
  qed
qed

section \<open>What a stop does\<close>

text \<open>The specification: the hooks in order, SIGTERM to every process after the stop commands, SIGKILL
  only if one of them outlives the timeout.\<close>

definition hook_events :: "env \<Rightarrow> ref \<Rightarrow> phase \<Rightarrow> string \<Rightarrow> string list \<Rightarrow> event list" where
  "hook_events E p ph dir ls = map (\<lambda>l. RanCommand p ph ((plain_spec E l)\<lparr>cs_dir := dir\<rparr>)) ls"

definition stop_events :: "env \<Rightarrow> ref \<Rightarrow> daemondef \<Rightarrow> int list \<Rightarrow> bool \<Rightarrow> event list" where
  "stop_events E p df ps exited =
     hook_events E p PhStopPre [] (execs df ExecStopPre) @
     hook_events E p PhStop (WorkingDirectory df) (execs df ExecStop) @
     map (\<lambda>pid. SentSignal p pid ''SIGTERM'') ps @
     hook_events E p PhStopPost [] (execs df ExecStopPost) @
     (if exited then [] else map (\<lambda>pid. SentSignal p pid ''SIGKILL'') ps)"

definition hooks_of :: "daemondef \<Rightarrow> nat" where
  "hooks_of df = length (execs df ExecStopPre) + length (execs df ExecStop) + length (execs df ExecStopPost)"

text \<open>Only the events, the clock and the error of one daemon change.\<close>

definition hooked :: "ref \<Rightarrow> event list \<Rightarrow> nat \<Rightarrow> sys \<Rightarrow> sys \<Rightarrow> bool" where
  "hooked p es n s s' = (\<exists>e. s' = s\<lparr>heap := (heap s)(p := (heap s p)\<lparr>state_error := e\<rparr>),
     events := events s @ es, ticks := ticks s + n\<rparr>)"

lemma hooked_refl: "hooked p [] 0 s s"
  unfolding hooked_def by (rule exI [of _ "state_error (heap s p)"]) simp

lemma hooked_trans: "hooked p es n s t \<Longrightarrow> hooked p es' n' t u \<Longrightarrow> hooked p (es @ es') (n + n') s u"
  by (auto simp: hooked_def add.assoc)

lemma hooked_same:
  "hooked p es n s s' \<Longrightarrow> def (heap s' q) = def (heap s q) \<and> cmds (heap s' q) = cmds (heap s q) \<and>
     dstate (heap s' q) = dstate (heap s q) \<and> events s' = events s @ es \<and> ticks s' = ticks s + n"
  by (auto simp: hooked_def)

lemma stop_hook_run:
  assumes "quiet E" "commands_end E"
  shows "\<exists>s'. stop_hook E p ph dir l s = Done (Next (), s') \<and> hooked p (hook_events E p ph dir [l]) 1 s s'"
proof (cases "run_result E (ticks s) ((plain_spec E l)\<lparr>cs_dir := dir\<rparr>)")
  case None
  then show ?thesis
    by (auto simp: stop_hook_def yield_quiet [OF assms(1)] assms(2) [unfolded commands_end_def] hooked_def hook_events_def emit_def
      intro!: exI [of _ "state_error (heap s p)"])
next
  case (Some e)
  then show ?thesis
    by (auto simp: stop_hook_def yield_quiet [OF assms(1)] assms(2) [unfolded commands_end_def] hooked_def hook_events_def upd_daemon_def emit_def
      intro!: exI [of _ "Some (PhaseFailed ph (dname (heap s p)) l e)"])
qed

lemma stop_hooks_run:
  assumes "quiet E" "commands_end E"
  shows "\<exists>s'. go_for (stop_hook E p ph dir) ls s = Done (Next (), s') \<and>
           hooked p (hook_events E p ph dir ls) (length ls) s s'"
proof (induction ls arbitrary: s)
  case Nil
  then show ?case by (simp add: hooked_refl hook_events_def)
next
  case (Cons l ls)
  from stop_hook_run [OF assms] obtain t where
    t: "stop_hook E p ph dir l s = Done (Next (), t)" "hooked p (hook_events E p ph dir [l]) 1 s t" by blast
  from Cons obtain u where
    u: "go_for (stop_hook E p ph dir) ls t = Done (Next (), u)" "hooked p (hook_events E p ph dir ls) (length ls) t u"
    by blast
  from t(1) u(1) have "go_for (stop_hook E p ph dir) (l # ls) s = Done (Next (), u)"
    by (simp add: go_bind_next)
  with hooked_trans [OF t(2) u(2)] show ?case by (auto simp: hook_events_def)
qed


lemma stop_run_trace:
  assumes "quiet E" "commands_end E" "def (heap s p) = Some df" "None \<notin> set (cmds (heap s p))"
  shows "\<exists>s' exited polls. stop_run E p s = Done (Next (), s') \<and>
    dstate (heap s' p) = StateStopped \<and>
    events s' = events s @ stop_events E p df (cmd_pids (cmds (heap s p))) exited \<and>
    ticks s' = ticks s + hooks_of df + polls \<and>
    polled E (cmd_pids (cmds (heap s p))) (stop_timeout df) (ticks s + hooks_of df) polls exited"
proof -
  let ?pids = "cmd_pids (cmds (heap s p))"
  let ?pre = "stop_hook E p PhStopPre []" and ?hook = "stop_hook E p PhStop (WorkingDirectory df)"
    and ?post = "stop_hook E p PhStopPost []"
  obtain s1 where s1: "go_for ?pre (execs df ExecStopPre) s = Done (Next (), s1)"
    "hooked p (hook_events E p PhStopPre [] (execs df ExecStopPre)) (length (execs df ExecStopPre)) s s1"
    using stop_hooks_run [OF assms(1,2)] by blast
  obtain s2 where s2: "go_for ?hook (execs df ExecStop) s1 = Done (Next (), s2)"
    "hooked p (hook_events E p PhStop (WorkingDirectory df) (execs df ExecStop)) (length (execs df ExecStop)) s1 s2"
    using stop_hooks_run [OF assms(1,2)] by blast
  define s3 where "s3 = signal_cmds p ''SIGTERM'' s2"
  obtain s4 where s4: "go_for ?post (execs df ExecStopPost) s3 = Done (Next (), s4)"
    "hooked p (hook_events E p PhStopPost [] (execs df ExecStopPost)) (length (execs df ExecStopPost)) s3 s4"
    using stop_hooks_run [OF assms(1,2)] by blast
  note same = hooked_same [OF s1(2), of p] hooked_same [OF s2(2), of p] hooked_same [OF s4(2), of p]
  have d: "def (heap s1 p) = Some df" "def (heap s2 p) = Some df" "def (heap s3 p) = Some df"
    and c: "cmds (heap s4 p) = cmds (heap s p)"
    using same assms(3) by (simp_all add: s3_def signal_cmds_def)
  obtain n b where w: "wait_exit E p (stop_timeout df) 0 s4 = Done (Next b, s4\<lparr>ticks := ticks s4 + n\<rparr>)"
    "polled E ?pids (stop_timeout df) (ticks s4) n b"
    using wait_exit_quiet [OF assms(1), of s4 p "stop_timeout df" 0] assms(4) unfolding c by auto
  define t where "t = ticks s4 + n"
  note w = w [folded t_def]
  obtain s5 where s5: "stop_kill p b (s4\<lparr>ticks := t\<rparr>) = Done (Next (), s5)" "ticks s5 = t"
    "events s5 = events s4 @ (if b then [] else map (\<lambda>pid. SentSignal p pid ''SIGKILL'') ?pids)"
    by (cases b) (simp_all add: stop_kill_def signal_cmds_def c)
  have runs: "go_bind (go_for ?pre (execs df ExecStopPre)) f s = f () s1"
     "go_bind (go_for ?hook (execs df ExecStop)) f s1 = f () s2"
     "go_bind (go_for ?post (execs df ExecStopPost)) f s3 = f () s4"
     "go_bind (wait_exit E p (stop_timeout df) 0) g s4 = g b (s4\<lparr>ticks := t\<rparr>)"
     "go_bind (stop_kill p b) f (s4\<lparr>ticks := t\<rparr>) = f () s5" for f g :: "_ \<Rightarrow> unit go"
    using s1(1) s2(1) s4(1) w(1) s5(1) by (auto intro: go_bind_next)
  have "stop_run E p s = Done (Next (), upd_daemon p (\<lambda>d. d\<lparr>dstate := StateStopped\<rparr>) s5)"
    using assms(3) d by (simp add: stop_run_def go_bind_the_def runs s3_def [symmetric])
  moreover have "events s4 = events s @ stop_events E p df ?pids True"
    "ticks s4 = ticks s + hooks_of df"
    using same by (simp_all add: s3_def signal_cmds_def stop_events_def hooks_of_def)
  ultimately show ?thesis
    using w s5 by (intro exI [of _ "upd_daemon p (\<lambda>d. d\<lparr>dstate := StateStopped\<rparr>) s5"] exI [of _ b] exI [of _ n])
      (auto simp: stop_events_def t_def)
qed

text \<open>The state in which the stop hooks begin.\<close>

definition stop_begun :: "bool \<Rightarrow> ref \<Rightarrow> sys \<Rightarrow> sys" where
  "stop_begun pr p s = (upd_daemon p (\<lambda>d. if dstate d \<noteq> StateRestarting \<or> pr
      then d\<lparr>dstate := StateStopping\<rparr> else d) s)\<lparr>ticks := ticks s + 1\<rparr>"

lemma stop_begun_simps [simp]:
  "def (heap (stop_begun pr p s) q) = def (heap s q)" "cmds (heap (stop_begun pr p s) q) = cmds (heap s q)"
  "events (stop_begun pr p s) = events s" "ticks (stop_begun pr p s) = ticks s + 1"
  by (auto simp: stop_begun_def)

lemma stop_runs:
  assumes "p \<notin> set (locks s)" "\<not> is_masked (heap s p)" "log_opens E (ticks s)"
  shows "stop E pr (Some p) s = go_fun (stop_run E p) (stop_begun pr p s)"
  using assms by (simp add: stop_def stop_body_def go_bind_lock stop_begun_def go_fun_def)

text \<open>
  C4. What a stop does, with no other goroutine at work and commands that end: the stop hooks run in
  order, every process gets SIGTERM after the stop commands and before the post hooks, and the polling
  ends at the first poll at which no process lives or more than the timeout has passed since it began
  (\<open>polled\<close>). SIGKILL is sent in the second case only. The service ends stopped and no error is
  returned, whatever the hooks do.
\<close>

theorem stop_trace:
  assumes "quiet E" "commands_end E" "p \<notin> set (locks s)" "\<not> is_masked (heap s p)" "def (heap s p) = Some df"
    and "log_opens E (ticks s)" "None \<notin> set (cmds (heap s p))"
  shows "\<exists>s' exited polls. stop E pr (Some p) s = Done (None, s') \<and>
    dstate (heap s' p) = StateStopped \<and>
    events s' = events s @ stop_events E p df (cmd_pids (cmds (heap s p))) exited \<and>
    ticks s' = ticks s + 1 + hooks_of df + polls \<and>
    polled E (cmd_pids (cmds (heap s p))) (stop_timeout df) (ticks s + 1 + hooks_of df) polls exited"
proof -
  have "stop E pr (Some p) s = Done (None, s')" if "stop_run E p (stop_begun pr p s) = Done (Next (), s')" for s'
    using that by (simp add: stop_runs [OF assms(3,4,6)] go_fun_Next)
  moreover obtain s' exited polls where run: "stop_run E p (stop_begun pr p s) = Done (Next (), s')"
    "dstate (heap s' p) = StateStopped"
    "events s' = events s @ stop_events E p df (cmd_pids (cmds (heap s p))) exited"
    "ticks s' = ticks s + 1 + hooks_of df + polls"
    "polled E (cmd_pids (cmds (heap s p))) (stop_timeout df) (ticks s + 1 + hooks_of df) polls exited"
    using stop_run_trace [OF assms(1,2), of "stop_begun pr p s" p df] assms(5,7) by auto
  ultimately show ?thesis by (intro exI [of _ s'] exI [of _ exited] exI [of _ polls] conjI)
qed

section \<open>The results of a stop\<close>

lemma wait_exit_step:
  "wait_exit E p tout el s =
     andthen (any_alive (alive E (ticks s)) (cmds (heap (yield_to E s) p))) (\<lambda>some_alive.
       if \<not> some_alive then Done (Next True, yield_to E s)
       else if el + poll_pause + int (delay E (ticks s)) > tout then Done (Next False, yield_to E s)
       else wait_exit E p tout (el + poll_pause + int (delay E (ticks s))) (yield_to E s))"
  by (subst wait_exit.simps) (simp add: Let_def)

lemma goes_on_wait: "goes_on (wait_exit E p tout el)"
proof -
  have "wait_exit E p tout el s = Done (x, s') \<Longrightarrow> \<exists>a. x = Next a" for s x s'
  proof (induction E p tout el s rule: wait_exit.induct)
    case (1 E p tout el s)
    from "1.prems" obtain some_alive where
      "any_alive (alive E (ticks s)) (cmds (heap (yield_to E s) p)) = Done some_alive"
      "(if \<not> some_alive then Done (Next True, yield_to E s)
           else if el + poll_pause + int (delay E (ticks s)) > tout then Done (Next False, yield_to E s)
           else wait_exit E p tout (el + poll_pause + int (delay E (ticks s))) (yield_to E s)) = Done (x, s')"
      unfolding wait_exit_step [of E p tout el s] andthen_Done_iff by blast
    then show ?case using "1.IH" [OF refl refl refl, of some_alive] by (auto split: if_splits)
  qed
  then show ?thesis by (simp add: goes_on_def)
qed

lemmas goes_on_intros = goes_on_pure goes_on_bind goes_on_for goes_on_wait

lemma stop_run_goes_on: "goes_on (stop_run E p)"
  unfolding stop_run_def stop_hook_def stop_kill_def
  by (intro goes_on_intros) (auto intro!: goes_on_intros split: option.split)

lemma stop_run_stops: "ends (\<lambda>_ s'. dstate (heap s' p) = StateStopped) (stop_run E p)"
  unfolding stop_run_def stop_hook_def stop_kill_def
  by (intro ends_bind goes_on_intros) (auto intro!: goes_on_intros simp: ends_def split: option.split)

lemma stop_unlocked: "stop E pr (Some p) s = Done r \<Longrightarrow> p \<notin> set (locks s)"
  by (auto simp: stop_def stop_body_def go_fun_def go_bind_def take_lock_def)

lemma stop_ran:
  assumes "stop E pr (Some p) s = Done (e, s')" "\<not> is_masked (heap s p)" "log_opens E (ticks s)"
  shows "e = None \<and> dstate (heap s' p) = StateStopped"
proof -
  have "go_fun (stop_run E p) (stop_begun pr p s) = Done (e, s')"
    using assms stop_runs [OF stop_unlocked [OF assms(1)]] by simp
  then obtain y where y: "stop_run E p (stop_begun pr p s) = Done (y, s')" "e = (case y of Next _ \<Rightarrow> None | Return e \<Rightarrow> e)"
    by (rule go_fun_DoneE)
  moreover obtain u where "y = Next u" using stop_run_goes_on y(1) unfolding goes_on_def by blast
  ultimately show ?thesis using stop_run_stops unfolding ends_def by auto
qed

lemma stop_refused:
  assumes "p \<notin> set (locks s)"
  shows "is_masked (heap s p) \<Longrightarrow> stop E pr (Some p) s = Done (Some ServiceMasked, s)"
    "\<not> is_masked (heap s p) \<Longrightarrow> \<not> log_opens E (ticks s) \<Longrightarrow> stop E pr (Some p) s =
       Done (Some LogFileFailed, upd_daemon p (\<lambda>d. d\<lparr>state_error := Some LogOpenFailed\<rparr>) (stop_begun pr p s))"
  using assms by (simp_all add: stop_def stop_body_def go_bind_lock go_fun_def stop_begun_def)

lemma stop_error_iff:
  assumes "stop E pr (Some p) s = Done (e, s')"
  shows "e = None \<longleftrightarrow> \<not> is_masked (heap s p) \<and> log_opens E (ticks s)"
  using assms stop_refused [OF stop_unlocked [OF assms], of E pr] stop_ran [OF assms]
  by (cases "is_masked (heap s p)"; cases "log_opens E (ticks s)") auto

text \<open>
  C11. The results of a stop, whatever the other goroutines do meanwhile: it returns no error only
  with the service stopped; the two errors are a masked service, which is left alone, and a log
  file that cannot be opened, which leaves the service in the state stopping.
\<close>

theorem stop_result:
  assumes "stop E pr (Some p) s = Done (e, s')"
  shows "(e = None \<and> dstate (heap s' p) = StateStopped) \<or>
    (e = Some ServiceMasked \<and> is_masked (heap s p) \<and> s' = s) \<or>
    (e = Some LogFileFailed \<and> \<not> log_opens E (ticks s) \<and>
     dstate (heap s' p) = (if dstate (heap s p) \<noteq> StateRestarting \<or> pr then StateStopping else StateRestarting))"
proof -
  show ?thesis
    using assms stop_refused [OF stop_unlocked [OF assms], of E pr] stop_ran [OF assms]
    by (cases "is_masked (heap s p)"; cases "log_opens E (ticks s)") (auto simp: stop_begun_def)
qed

section \<open>A concrete run\<close>

text \<open>An environment without other goroutines in which every command succeeds and the processes
  live until the clock shows \<open>n\<close>; and a process that runs one service.\<close>

definition calm_env :: "nat \<Rightarrow> env" where
  "calm_env n = \<lparr>os_environ = [], lookup_user = (\<lambda>_. None), lookup_group = (\<lambda>_. None),
     current_uid = Some ''0'', log_opens = (\<lambda>_. True), run_ends = (\<lambda>_ _. True), run_result = (\<lambda>_ _. None),
     spawn_result = (\<lambda>t _. Some (100 + int t)), alive = (\<lambda>t _. t < n), delay = (\<lambda>_. 0),
     others = (\<lambda>_ s. s)\<rparr>"

lemma calm_quiet: "quiet (calm_env n)" and calm_ends: "commands_end (calm_env n)"
  by (simp_all add: quiet_def commands_end_def calm_env_def)

definition serving :: "daemondef \<Rightarrow> cmd list \<Rightarrow> sys" where
  "serving df cs = (init_sys [])
     \<lparr>heap := (\<lambda>_. new_daemon [] [])(0 := (new_daemon ''a'' ''a.service'')
        \<lparr>def := Some df, dstate := StateRunning, cmds := cs\<rparr>),
      next_ref := 1, dlist := [(''a'', 0)]\<rparr>"

definition with_stop :: daemondef where
  "with_stop = empty_def\<lparr>execs := (\<lambda>_. [])(ExecStop := [''quit''])\<rparr>"

theorem stop_trace_witness:
  "\<exists>s'. stop (calm_env 5) True (Some 0) (serving with_stop [Some 7]) = Done (None, s') \<and>
     hd (events s') = RanCommand 0 PhStop (plain_spec (calm_env 5) ''quit'') \<and>
     SentSignal 0 7 ''SIGTERM'' \<in> set (events s')"
proof -
  have "def (heap (serving with_stop [Some 7]) 0) = Some with_stop" by (simp add: serving_def)
  then show ?thesis
    using stop_trace [OF calm_quiet calm_ends, of 0 "serving with_stop [Some 7]" with_stop 5 True]
    by (auto simp: serving_def init_sys_def new_daemon_def calm_env_def with_stop_def empty_def_def
        stop_events_def hook_events_def plain_spec_def)
qed

theorem stop_result_witness:
  "\<exists>e s'. stop (calm_env 0) True (Some 0) (serving empty_def []) = Done (e, s') \<and> e = None \<and>
     dstate (heap s' 0) = StateStopped"
proof -
  let ?s = "serving empty_def []"
  obtain s' where "stop_run (calm_env 0) 0 (stop_begun True 0 ?s) = Done (Next (), s')"
    using stop_run_trace [OF calm_quiet calm_ends, of "stop_begun True 0 ?s" 0 empty_def 0] by (auto simp: serving_def)
  then have run: "stop (calm_env 0) True (Some 0) ?s = Done (None, s')"
    using stop_runs [of 0 ?s "calm_env 0" True]
    by (simp add: go_fun_def serving_def init_sys_def new_daemon_def calm_env_def)
  with stop_result [OF run] show ?thesis
    by (auto simp: serving_def init_sys_def new_daemon_def calm_env_def)
qed

end
