(* ===== verification/StartProps.thy ===== *)
theory StartProps
  imports StopProps
begin

section \<open>What every start keeps\<close>

text \<open>
  The contract of a frame over \<open>start\<close>: the single changes that \<open>start\<close> makes, a stop, and its first
  part up to the cleanup (which is taken as a whole, because the state \<open>StateStarting\<close> it sets is
  gone at its end) keep the relation; and it does not see the locks taken for a call.
\<close>

locale start_frame = body_frame rel for rel :: "sys \<Rightarrow> sys \<Rightarrow> bool" +
  fixes E :: env
  assumes rel_stopped: "rel s (upd_daemon p (\<lambda>d. d\<lparr>dstate := StateStopped, state_error := e\<rparr>) s)"
    and rel_running: "rel s (upd_daemon p (\<lambda>d. d\<lparr>dstate := StateRunning, state_error := None\<rparr>) s)"
    and rel_cmds: "rel s (upd_daemon p (\<lambda>d. d\<lparr>cmds := cs\<rparr>) s)"
    and rel_yield: "rel s (yield_to E s)"
    and rel_emit: "rel s (emit ev s)"
    and rel_ticks: "rel s (s\<lparr>ticks := n\<rparr>)"
    and rel_stop: "method_leaves rel (stop E pr i)"
    and rel_locked: "rel (s\<lparr>locks := p # locks s\<rparr>) t \<Longrightarrow> rel s (t\<lparr>locks := tl (locks t)\<rparr>)"
    and rel_begin: "leaves rel (go_bind (start_guard p m) (\<lambda>_. start_cleanup E p))"
begin

lemma leaves_const: "leaves rel (\<lambda>s. Done (x, s))" "leaves rel (\<lambda>s. Crash c)"
  by (simp_all add: leaves_def frame_refl)

lemma leaves_sets:
  "leaves rel (set_daemon p (\<lambda>d. d\<lparr>dstate := StateStopped, state_error := e\<rparr>))"
  "leaves rel (set_daemon p (\<lambda>d. d\<lparr>dstate := StateRunning, state_error := None\<rparr>))"
  "leaves rel (set_daemon p (\<lambda>d. d\<lparr>cmds := cs\<rparr>))"
  "leaves rel (go_modify (yield_to E))" "leaves rel (go_modify (emit ev))" "leaves rel (new_logger E)"
  "leaves rel (start_env E df)" "leaves rel (name_of i)"
  by (auto simp: leaves_def rel_stopped rel_running rel_cmds rel_yield rel_emit rel_ticks start_env_def
      name_of_def frame_refl split: sum.splits option.splits)

lemma leaves_run: "leaves rel (run_command E p ph spec)"
  by (auto simp: leaves_def intro: frame_trans [OF rel_emit rel_yield])

lemma leaves_spawn: "leaves rel (spawn E p spec)"
  by (auto simp: leaves_def spawn_def Let_def intro: rel_yield frame_trans [OF rel_emit rel_yield])

lemma leaves_check: "leaves rel (check_abort E p)"
  unfolding check_abort_def
  by (rule leaves_bind [OF leaves_sets(4)]) (auto simp: leaves_def frame_refl)

lemma leaves_ids: "leaves rel (start_ids E df)"
  unfolding start_ids_def by (auto intro!: leaves_intros leaves_const split: option.split)

lemmas step_intros = leaves_intros leaves_const leaves_sets leaves_run leaves_spawn leaves_check leaves_ids
  rel_stop

text \<open>The lock is taken and given back.\<close>

lemma leaves_linked:
  assumes "\<And>i m. method_leaves rel (rec i m)"
  shows "leaves rel (run_linked rec k p)"
  unfolding leaves_def
proof (intro allI impI)
  fix s x s' assume run: "run_linked rec k p s = Done (x, s')"
  then obtain df where d: "def (heap s p) = Some df"
    by (cases "def (heap s p)") (simp_all add: run_linked_def go_bind_def the_def_def)
  let ?loop = "go_for (\<lambda>(_, i). go_bind (go_call (rec i False)) (\<lambda>_. go_next ())) (deps df k)"
  have loop: "leaves rel ?loop" "goes_on ?loop"
    using assms by (auto intro!: leaves_intros goes_on_intros)
  from run d have "go_bind ?loop (\<lambda>_. go_modify (\<lambda>s. s\<lparr>locks := tl (locks s)\<rparr>)) (s\<lparr>locks := p # locks s\<rparr>) = Done (x, s')"
    by (simp add: run_linked_def go_bind_the_def)
  then obtain t where t: "?loop (s\<lparr>locks := p # locks s\<rparr>) = Done (Next (), t)" "s' = t\<lparr>locks := tl (locks t)\<rparr>"
    using loop(2) by (auto elim!: go_bind_DoneE simp: goes_on_def)
  show "rel s s'" using rel_locked [OF leavesD [OF loop(1) t(1)]] t(2) by simp
qed

lemma leaves_give_up:
  "(\<And>i m. method_leaves rel (rec i m)) \<Longrightarrow> leaves rel (give_up rec p e r)"
  unfolding give_up_def by (auto intro!: step_intros leaves_linked)

lemma leaves_deps:
  assumes "\<And>i m. method_leaves rel (rec i m)"
  shows "leaves rel (start_deps E rec p)"
proof -
  have req: "leaves rel (require_running E rec p d)" for d
    unfolding require_running_def
    by (intro step_intros) (auto intro!: step_intros leaves_give_up assms split: option.split)
  have must: "leaves rel (must_succeed E rec act p d)" if "\<And>i. method_leaves rel (act i)" for act d
    unfolding must_succeed_def
    by (intro step_intros that) (auto intro!: step_intros leaves_give_up assms split: option.split)
  have may: "leaves rel (may_fail E rec p d)" for d
    unfolding may_fail_def by (intro step_intros assms)
  have "leaves rel (must_succeed E rec (\<lambda>i. rec i False) p d)" "leaves rel (must_succeed E rec (stop E True) p d)" for d
    by (rule must, rule assms, rule must, rule rel_stop)
  then show ?thesis
    unfolding start_deps_def by (intro step_intros req may)
qed

lemma leaves_phase_failed:
  "(\<And>i m. method_leaves rel (rec i m)) \<Longrightarrow> leaves rel (phase_failed E rec p ph l e)"
  unfolding phase_failed_def by (intro step_intros leaves_give_up)

lemma leaves_condition: "leaves rel (condition_line E p denv l)"
  unfolding condition_line_def by (intro step_intros) (auto intro!: step_intros split: option.split)

lemma leaves_lines:
  assumes "\<And>i m. method_leaves rel (rec i m)"
  shows "leaves rel (run_line E rec p ph denv l)"
    "leaves rel (spawn_lines E rec p denv ids ls)"
proof -
  show "leaves rel (run_line E rec p ph denv l)"
    unfolding run_line_def Let_def
    by (intro step_intros) (auto intro!: step_intros leaves_phase_failed assms split: option.split)
  have "leaves rel (spawn_line E rec p denv ids l)" for l
    unfolding spawn_line_def Let_def
    by (intro step_intros) (auto intro!: step_intros leaves_phase_failed assms)
  then show "leaves rel (spawn_lines E rec p denv ids ls)"
    by (induction ls) (auto intro!: step_intros)
qed

lemma leaves_start_body:
  assumes "\<And>i m. method_leaves rel (rec i m)"
  shows "leaves rel (start_body E rec p m)"
proof -
  have "leaves rel (start_logger E p)"
    unfolding start_logger_def by (auto intro!: step_intros)
  moreover have "leaves rel (start_finish E rec p cs)" for cs
    unfolding start_finish_def by (auto intro!: step_intros leaves_linked assms)
  then have "leaves rel (start_commands E rec p denv ids)" for denv ids
    unfolding start_commands_def by (intro step_intros leaves_lines assms)
  ultimately show ?thesis
    unfolding start_body_def go_bind_assoc [symmetric, of "start_guard p m"]
    by (intro leaves_bind [OF rel_begin] step_intros leaves_deps leaves_condition leaves_lines assms)
qed

lemma leaves_start: "method_leaves rel (start n E i m)"
proof (induction n arbitrary: i m)
  case (Suc n)
  show ?case
  proof (cases i)
    case (Some p)
    then show ?thesis using leaves_fun [OF leaves_start_body, of "start n E" p m] Suc
      by (simp add: method_leaves_def)
  qed (simp add: method_leaves_def frame_refl)
qed (simp add: method_leaves_def)

end

section \<open>What starting and stopping leave alone\<close>

text \<open>The part of a definition that starting does not change: only \<open>RemainAfterExit\<close> is set.\<close>

definition core :: "daemondef \<Rightarrow> daemondef" where
  "core d = d\<lparr>RemainAfterExit := True\<rparr>"

definition same_unit :: "daemon \<Rightarrow> daemon \<Rightarrow> bool" where
  "same_unit d d' = (dname d' = dname d \<and> is_masked d' = is_masked d \<and> paths d' = paths d \<and>
     olddef d' = olddef d \<and> map_option core (def d') = map_option core (def d))"

definition same_units :: "sys \<Rightarrow> sys \<Rightarrow> bool" where
  "same_units s s' = (dlist s' = dlist s \<and> fs s' = fs s \<and> next_ref s' = next_ref s \<and>
     shutdown s' = shutdown s \<and> locks s' = locks s \<and> (\<forall>q. same_unit (heap s q) (heap s' q)))"

lemma same_unit_refl [simp]: "same_unit d d"
  by (simp add: same_unit_def)

interpretation units: body_frame same_units
  by unfold_locales (auto simp: same_units_def same_unit_def)

lemma core_deps: "map_option core x = map_option core y \<Longrightarrow> map_option deps x = map_option deps y"
  by (cases x; cases y) (auto simp: core_def dest: arg_cong [where f = deps])

lemma core_None: "map_option core x = map_option core y \<Longrightarrow> (x = None) = (y = None)"
  by (cases x; cases y) auto

text \<open>The statements that only touch one daemon, the clock or the events.\<close>

lemma units_set: "(\<And>d. same_unit d (f d)) \<Longrightarrow> leaves same_units (set_daemon p f)"
  by (auto simp: leaves_def same_units_def)

lemma units_modify: "(\<And>s. same_units s (f s)) \<Longrightarrow> leaves same_units (go_modify f)"
  by (rule leaves_modify)

lemma units_emit: "same_units s (emit e s)" "same_units s (s\<lparr>events := es\<rparr>)" "same_units s (s\<lparr>ticks := n\<rparr>)"
    "same_units s (signal_cmds p sig s)"
  by (auto simp: same_units_def signal_cmds_def)

lemma units_yield: "quiet E \<Longrightarrow> same_units s (yield_to E s)"
  by (simp add: yield_quiet units_emit)

lemma units_run: "quiet E \<Longrightarrow> leaves same_units (run_command E p ph spec)"
  by (auto simp: leaves_def yield_quiet same_units_def)

lemma units_logger: "leaves same_units (new_logger E)"
  by (simp add: leaves_def units_emit)

lemma wait_exit_clock:
  "quiet E \<Longrightarrow> wait_exit E p tout el s = Done (x, s') \<Longrightarrow> \<exists>t. s' = s\<lparr>ticks := t\<rparr>"
proof (induction E p tout el s rule: wait_exit.induct)
  case (1 E p tout el s)
  let ?s = "s\<lparr>ticks := ticks s + 1\<rparr>"
  from "1.prems"(2) obtain some_alive where
    "any_alive (alive E (ticks s)) (cmds (heap ?s p)) = Done some_alive"
    "(if \<not> some_alive then Done (Next True, ?s)
         else if el + poll_pause + int (delay E (ticks s)) > tout then Done (Next False, ?s)
         else wait_exit E p tout (el + poll_pause + int (delay E (ticks s))) ?s) = Done (x, s')"
    unfolding wait_exit_step [of E p tout el s] andthen_Done_iff yield_quiet [OF "1.prems"(1)] by blast
  then show ?case using "1.IH" [OF refl refl refl, of some_alive] "1.prems"(1)
    by (force simp: yield_quiet split: if_splits)
qed

lemma units_wait: "quiet E \<Longrightarrow> leaves same_units (wait_exit E p tout el)"
  using wait_exit_clock by (fastforce simp: leaves_def units_emit)

lemmas units_intros = units.leaves_intros units_set units_modify units_run units_logger units_wait
  units_emit units_yield

lemma stop_run_units: "quiet E \<Longrightarrow> leaves same_units (stop_run E p)"
  unfolding stop_run_def stop_hook_def stop_kill_def
  by (auto intro!: units_intros simp: same_unit_def split: option.split)

lemma stop_units: "quiet E \<Longrightarrow> method_leaves same_units (stop E pr p)"
  by (cases p)
    (auto simp: stop_def stop_body_def same_unit_def method_leaves_def [of _ "\<lambda>s. Done (None, s)"] units.frame_refl
      intro!: units.leaves_fun units_intros stop_run_units)

lemma units_check: "quiet E \<Longrightarrow> leaves same_units (check_abort E p)"
  unfolding check_abort_def
  by (intro units.leaves_bind units_intros) (auto simp: leaves_def units.frame_refl)

lemma units_oneshot: "same_units s (upd_def p (\<lambda>df. if P df then df\<lparr>RemainAfterExit := True\<rparr> else df) s)"
  by (auto simp: same_units_def same_unit_def core_def option.map_comp comp_def intro!: option.map_cong)

lemma start_guard_units: "leaves same_units (start_guard p manual)"
  unfolding start_guard_def
  by (auto intro!: units_intros units_oneshot simp: same_unit_def)

lemma start_cleanup_units: "quiet E \<Longrightarrow> leaves same_units (start_cleanup E p)"
  unfolding start_cleanup_def
  by (auto intro!: units_intros units_check stop_units simp: same_unit_def split: option.split)

section \<open>No daemon is left starting\<close>

definition no_new_starting :: "ref set \<Rightarrow> sys \<Rightarrow> sys \<Rightarrow> bool" where
  "no_new_starting A s s' =
     (\<forall>q\<in>A. dstate (heap s' q) = StateStarting \<longrightarrow> dstate (heap s q) = StateStarting)"

text \<open>
  A shutdown that begins after \<open>start\<close> has set the state makes it return at once (\<open>check_abort\<close>), and the
  state stays. So the relation says nothing about a run in which the shutdown begins.
\<close>

definition none_starting :: "ref set \<Rightarrow> sys \<Rightarrow> sys \<Rightarrow> bool" where
  "none_starting A s s' =
     ((shutdown s \<longrightarrow> shutdown s') \<and> (\<not> shutdown s' \<longrightarrow> no_new_starting A s s'))"

interpretation nns: body_frame "none_starting A" for A
  by unfold_locales (auto simp: none_starting_def no_new_starting_def)

lemma nns_set:
  "(\<forall>d. dstate (f d) = StateStarting \<longrightarrow> dstate d = StateStarting) \<or> p \<notin> A \<Longrightarrow>
   leaves (none_starting A) (set_daemon p f)"
  by (auto simp: leaves_def none_starting_def no_new_starting_def)

lemma nns_same:
  "heap s' = heap s \<Longrightarrow> shutdown s' = shutdown s \<Longrightarrow> none_starting A s s'"
  by (simp add: none_starting_def no_new_starting_def)

text \<open>The other goroutines may do anything but begin to start a service or take the shutdown back.\<close>

definition starts_nothing :: "env \<Rightarrow> bool" where
  "starts_nothing E = (\<forall>t s. no_new_starting UNIV s (others E t s) \<and> (shutdown s \<longrightarrow> shutdown (others E t s)))"

lemma quiet_starts_nothing: "quiet E \<Longrightarrow> starts_nothing E"
  by (simp add: starts_nothing_def quiet_def no_new_starting_def)

lemma nns_yield: "starts_nothing E \<Longrightarrow> none_starting A s (yield_to E s)"
  by (simp add: starts_nothing_def none_starting_def no_new_starting_def yield_to_def)

lemma nns_run:
  assumes "starts_nothing E"
  shows "leaves (none_starting A) (run_command E p ph spec)"
  unfolding leaves_def
proof (intro allI impI)
  fix s x s' assume "run_command E p ph spec s = Done (x, s')"
  then have "s' = yield_to E (emit (RanCommand p ph spec) s)" by (simp split: if_splits)
  with nns.frame_trans [OF nns_same nns_yield [OF assms], of "emit (RanCommand p ph spec) s" s A]
  show "none_starting A s s'" by simp
qed

lemma nns_wait:
  assumes "starts_nothing E"
  shows "leaves (none_starting A) (wait_exit E p tout el)"
proof -
  have "wait_exit E p tout el s = Done (x, s') \<Longrightarrow> none_starting A s s'" for s x s'
    using assms
  proof (induction E p tout el s rule: wait_exit.induct)
    case (1 E p tout el s)
    let ?s = "yield_to E s"
    have y: "none_starting A s ?s" by (rule nns_yield [OF "1.prems"(2)])
    from "1.prems"(1) obtain b where b: "any_alive (alive E (ticks s)) (cmds (heap ?s p)) = Done b"
      "(if \<not> b then Done (Next True, ?s)
         else if el + poll_pause + int (delay E (ticks s)) > tout then Done (Next False, ?s)
         else wait_exit E p tout (el + poll_pause + int (delay E (ticks s))) ?s) = Done (x, s')"
      unfolding wait_exit_step [of E p tout el s] andthen_Done_iff by blast
    show ?case
    proof (cases "b \<and> el + poll_pause + int (delay E (ticks s)) \<le> tout")
      case True
      with b have "none_starting A ?s s'" using "1.IH" [OF refl refl refl, of b] "1.prems"(2) by simp
      with y show ?thesis by (rule nns.frame_trans)
    next
      case False
      with b(2) have "s' = ?s" by (auto split: if_splits)
      with y show ?thesis by simp
    qed
  qed
  then show ?thesis unfolding leaves_def by blast
qed

lemma stop_run_nns: "starts_nothing E \<Longrightarrow> leaves (none_starting A) (stop_run E p)"
  unfolding stop_run_def stop_hook_def stop_kill_def
  by (auto intro!: nns.leaves_intros nns_set nns_run nns_wait leaves_modify nns_same
      simp: signal_cmds_def split: option.split)

lemma stop_nns: "starts_nothing E \<Longrightarrow> method_leaves (none_starting A) (stop E pr p)"
proof (cases p)
  case (Some q)
  assume "starts_nothing E"
  then have "leaves (none_starting A) (stop_body E pr q)"
    unfolding stop_body_def
    by (auto intro!: nns.leaves_intros nns_set stop_run_nns leaves_modify split: if_splits)
      (auto simp: leaves_def intro: nns_same)
  then show ?thesis by (simp add: stop_def Some nns.leaves_fun)
qed (simp add: stop_def method_leaves_def nns.frame_refl)

lemma check_abort_cases:
  assumes "check_abort E p s = Done (x, s')"
  shows "s' = yield_to E s" "x = Next () \<or> shutdown s' \<or> dstate (heap s' p) = StateStopping"
  using assms by (auto simp: check_abort_def is_shutting_down_def split: if_splits)

lemma check_abort_quiet:
  "quiet E \<Longrightarrow> check_abort E p s =
    (let s = s\<lparr>ticks := ticks s + 1\<rparr> in
     if shutdown s then Done (Return (Some (StartAbortedShutdown (dname (heap s p)))), s)
     else if dstate (heap s p) = StateStopping then Done (Return (Some (StartAbortedStop (dname (heap s p)))), s)
     else Done (Next (), s))"
  by (simp add: check_abort_def yield_quiet is_shutting_down_def Let_def)

lemma go_call_DoneE:
  assumes "go_bind (go_call c) f s = Done (x, s')"
  obtains e t where "c s = Done (e, t)" "f e t = Done (x, s')"
  using assms by (auto simp: go_bind_def go_call_def andthen_Done_iff)

text \<open>The cleanup leaves the daemon in some other state: \<open>start\<close> works on with a stopped one.\<close>

lemma start_cleanup_nns:
  assumes "starts_nothing E" "start_cleanup E p s = Done (x, s')"
  shows "none_starting (- {p}) s s' \<and> (\<not> shutdown s' \<longrightarrow> dstate (heap s' p) \<noteq> StateStarting)"
  using assms(2) unfolding start_cleanup_def
proof (cases rule: go_bind_DoneE)
  case (returns e)
  then have "s' = yield_to E s" "shutdown s' \<or> dstate (heap s' p) = StateStopping"
    using check_abort_cases [of E p s "Return e" s'] by simp_all
  then show ?thesis using nns_yield [OF assms(1)] by auto
next
  case (goes u t0)
  have t0: "none_starting (- {p}) s t0" using check_abort_cases(1) [OF goes(1)] nns_yield [OF assms(1)] by simp
  from goes(2) obtain e t where t: "stop E False (Some p) t0 = Done (e, t)"
    and rest: "go_bind (check_abort E p) (\<lambda>_. case e of
       None \<Rightarrow> set_daemon p (\<lambda>d. d\<lparr>state_error := None\<rparr>)
     | Some e \<Rightarrow> go_bind (set_daemon p (\<lambda>d. d\<lparr>dstate := StateStopped, state_error := Some e\<rparr>)) (\<lambda>_.
                 go_return (Some (CleanupFailed e)))) t = Done (x, s')"
    by (rule go_call_DoneE)
  have other: "none_starting (- {p}) s t"
    using nns.frame_trans [OF t0 method_leavesD [OF stop_nns [OF assms(1)] t]] .
  have stopped: "e = None \<Longrightarrow> dstate (heap t p) = StateStopped" using stop_error_iff [OF t] stop_ran [OF t] by auto
  from rest have "none_starting (- {p}) t s' \<and> (\<not> shutdown s' \<longrightarrow> dstate (heap s' p) \<noteq> StateStarting)"
  proof (cases rule: go_bind_DoneE)
    case (returns a)
    then have "s' = yield_to E t" "shutdown s' \<or> dstate (heap s' p) = StateStopping"
      using check_abort_cases [of E p t "Return a" s'] by simp_all
    then show ?thesis using nns_yield [OF assms(1)] by auto
  next
    case (goes v w)
    have w: "none_starting UNIV t w" using check_abort_cases(1) [OF goes(1)] nns_yield [OF assms(1)] by simp
    show ?thesis
    proof (cases e)
      case None
      with goes(2) have "s' = upd_daemon p (\<lambda>d. d\<lparr>state_error := None\<rparr>) w" by simp
      with w stopped [OF None] show ?thesis by (auto simp: none_starting_def no_new_starting_def)
    next
      case (Some a)
      with goes(2) have "s' = upd_daemon p (\<lambda>d. d\<lparr>dstate := StateStopped, state_error := Some a\<rparr>) w" by simp
      with w show ?thesis by (auto simp: none_starting_def no_new_starting_def)
    qed
  qed
  with other show ?thesis using nns.frame_trans by blast
qed

text \<open>The guards of \<open>start\<close> as one case distinction.\<close>

definition start_warned :: "ref \<Rightarrow> bool \<Rightarrow> daemondef \<Rightarrow> sys \<Rightarrow> sys" where
  "start_warned p m df s = upd_daemon p (\<lambda>d. if m then d\<lparr>is_manual := True\<rparr> else d)
     (s\<lparr>events := events s @ limit_warnings (dname (heap s p)) df\<rparr>)"

definition start_begun :: "ref \<Rightarrow> bool \<Rightarrow> daemondef \<Rightarrow> sys \<Rightarrow> sys" where
  "start_begun p m df s =
     upd_def p (\<lambda>df. if ServiceType df = ''oneshot'' then df\<lparr>RemainAfterExit := True\<rparr> else df)
       (upd_daemon p (\<lambda>d. if dstate d \<noteq> StateRestarting then d\<lparr>dstate := StateStarting\<rparr> else d)
         (start_warned p m df s))"

lemma start_guard_eq:
  "start_guard p m s =
     (if shutdown s then Done (Return (Some (StartShuttingDown (dname (heap s p)))), s)
      else if p \<in> set (locks s) then Crash SelfDeadlock
      else if dstate (heap s p) = StateStarting \<or> dstate (heap s p) = StateStopping then Done (Return None, s)
      else if is_masked (heap s p) then Done (Return (Some ServiceMasked), s)
      else case def (heap s p) of
        None \<Rightarrow> Crash NilDeref
      | Some df \<Rightarrow> if dstate (heap s p) = StateRunning then Done (Return None, start_warned p m df s)
                   else Done (Next (), start_begun p m df s))"
proof -
  consider "shutdown s" | "\<not> shutdown s" "p \<in> set (locks s)"
    | "\<not> shutdown s" "p \<notin> set (locks s)" "def (heap s p) = None"
    | df where "\<not> shutdown s" "p \<notin> set (locks s)" "def (heap s p) = Some df" by blast
  then show ?thesis
  proof cases
    case 2
    then have "take_lock p s = Crash SelfDeadlock" by (simp add: take_lock_def)
    with 2 show ?thesis by (simp add: start_guard_def is_shutting_down_def go_bind_crash)
  next
    case 3
    then have "the_def p s = Crash NilDeref" by (simp add: the_def_def)
    with 3 show ?thesis by (simp add: start_guard_def is_shutting_down_def go_bind_lock go_bind_crash)
  next
    case 4
    then show ?thesis
      by (simp add: start_guard_def is_shutting_down_def go_bind_lock go_bind_the_def start_warned_def
          start_begun_def)
  qed (simp add: start_guard_def is_shutting_down_def)
qed

lemma start_guard_cases:
  assumes "start_guard p m s = Done (x, s')"
  shows "x = Next () \<Longrightarrow> none_starting (- {p}) s s'"
    "x \<noteq> Next () \<Longrightarrow> none_starting A s s'"
  using assms
  by (auto simp: start_guard_eq start_begun_def start_warned_def none_starting_def no_new_starting_def
      split: if_splits option.splits)

lemma start_begin_nns:
  assumes "starts_nothing E"
  shows "leaves (none_starting A) (go_bind (start_guard p m) (\<lambda>_. start_cleanup E p))"
  unfolding leaves_def
proof (intro allI impI)
  fix s x s' assume "go_bind (start_guard p m) (\<lambda>_. start_cleanup E p) s = Done (x, s')"
  then show "none_starting A s s'"
  proof (cases rule: go_bind_DoneE)
    case (goes a t)
    then have "none_starting (- {p}) s t" using start_guard_cases [OF goes(1)] by simp
    with start_cleanup_nns [OF assms goes(2)] show ?thesis
      by (auto simp: none_starting_def no_new_starting_def)
  qed (simp add: start_guard_cases)
qed

section \<open>Undisturbed starts\<close>

text \<open>With no other goroutine at work both relations are frames of \<open>start\<close>.\<close>

locale quiet_env =
  fixes E :: env
  assumes quiet_E: "quiet E"

sublocale quiet_env \<subseteq> units: start_frame same_units E
proof unfold_locales
  fix s t p
  show "same_units (s\<lparr>locks := p # locks s\<rparr>) t \<Longrightarrow> same_units s (t\<lparr>locks := tl (locks t)\<rparr>)"
    by (simp add: same_units_def)
  show "leaves same_units (go_bind (start_guard p m) (\<lambda>_. start_cleanup E p))" for m
    by (intro units.leaves_bind start_guard_units start_cleanup_units quiet_E)
qed (auto simp: same_units_def same_unit_def yield_quiet [OF quiet_E] intro: stop_units [OF quiet_E])

context quiet_env begin

lemma start_same_units: "start n E i m s = Done (e, s') \<Longrightarrow> same_units s s'"
  by (rule method_leavesD [OF units.leaves_start])

end

text \<open>The other relation is one in a wider class of environments.\<close>

locale mild_env =
  fixes E :: env
  assumes mild_E: "starts_nothing E"

sublocale mild_env \<subseteq> starting: start_frame "none_starting A" E for A
proof unfold_locales
  fix s t p
  show "none_starting A (s\<lparr>locks := p # locks s\<rparr>) t \<Longrightarrow> none_starting A s (t\<lparr>locks := tl (locks t)\<rparr>)"
    by (simp add: none_starting_def no_new_starting_def)
qed (auto simp: none_starting_def [of _ _ "upd_daemon _ _ _"] no_new_starting_def [of _ _ "upd_daemon _ _ _"] nns_same
    intro: nns_yield [OF mild_E] stop_nns [OF mild_E] start_begin_nns [OF mild_E])

context mild_env begin

lemma start_none_starting: "start n E i m s = Done (e, s') \<Longrightarrow> none_starting A s s'"
  by (rule method_leavesD [OF starting.leaves_start])

end

interpretation calm: quiet_env "calm_env n" for n
  by unfold_locales (rule calm_quiet)

interpretation mild: mild_env "calm_env n" for n
  by unfold_locales (rule quiet_starts_nothing [OF calm_quiet])

end
