(* ===== verification/StartRuns.thy ===== *)
theory StartRuns
  imports StartProps
begin

text \<open>
  Runs of \<open>start\<close> in an environment where the commands succeed: the trace of a start without
  dependencies, a requisite that does not run, and a cycle of \<open>Requires\<close>.
\<close>

section \<open>What a stop leaves to the other daemons\<close>

definition own_changes :: "ref \<Rightarrow> sys \<Rightarrow> sys \<Rightarrow> bool" where
  "own_changes p s s' = (\<forall>q. cmds (heap s' q) = cmds (heap s q) \<and> (q \<noteq> p \<longrightarrow> heap s' q = heap s q))"

interpretation own: body_frame "own_changes p" for p
  by unfold_locales (auto simp: own_changes_def)

lemma own_set: "(\<And>d. cmds (f d) = cmds d) \<Longrightarrow> leaves (own_changes p) (set_daemon p f)"
  by (auto simp: leaves_def own_changes_def)

lemma own_same: "heap s' = heap s \<Longrightarrow> own_changes p s s'"
  by (simp add: own_changes_def)

lemma own_run: "quiet E \<Longrightarrow> leaves (own_changes p) (run_command E q ph spec)"
  by (auto simp: leaves_def yield_quiet own_changes_def)

lemma own_wait: "quiet E \<Longrightarrow> leaves (own_changes p) (wait_exit E q tout el)"
  using wait_exit_clock by (fastforce simp: leaves_def own_changes_def)

lemma stop_run_own: "quiet E \<Longrightarrow> leaves (own_changes p) (stop_run E p)"
  unfolding stop_run_def stop_hook_def stop_kill_def
  by (auto intro!: own.leaves_intros own_set own_run own_wait leaves_modify own_same
      simp: signal_cmds_def split: option.split)

section \<open>The first part of a start\<close>

text \<open>A service that \<open>start\<close> does not turn away, and whose old processes it can look at.\<close>

definition startable :: "ref \<Rightarrow> sys \<Rightarrow> bool" where
  "startable p s = (\<not> shutdown s \<and> p \<notin> set (locks s) \<and> \<not> is_masked (heap s p) \<and> def (heap s p) \<noteq> None \<and>
     dstate (heap s p) \<in> {StateStopped, StateRestarting} \<and> None \<notin> set (cmds (heap s p)))"

lemma check_abort_next:
  "quiet E \<Longrightarrow> \<not> shutdown s \<Longrightarrow> dstate (heap s p) \<noteq> StateStopping \<Longrightarrow>
   check_abort E p s = Done (Next (), s\<lparr>ticks := ticks s + 1\<rparr>)"
  by (simp add: check_abort_quiet Let_def)

lemma start_begin_runs:
  assumes "quiet E" "commands_end E" "\<And>t. log_opens E t" "startable p s" "def (heap s p) = Some df"
  shows "\<exists>t exited. go_bind (start_guard p m) (\<lambda>_. start_cleanup E p) s = Done (Next (), t) \<and>
    same_units s t \<and> dstate (heap t p) = StateStopped \<and> state_error (heap t p) = None \<and>
    (\<forall>q. cmds (heap t q) = cmds (heap s q) \<and> (q \<noteq> p \<longrightarrow> heap t q = heap s q)) \<and>
    events t = events s @ limit_warnings (dname (heap s p)) df @
      stop_events E p df (cmd_pids (cmds (heap s p))) exited"
proof -
  define s1 where "s1 = start_begun p m df s"
  have st: "\<not> shutdown s" "p \<notin> set (locks s)" "\<not> is_masked (heap s p)" "None \<notin> set (cmds (heap s p))"
      "dstate (heap s p) = StateStopped \<or> dstate (heap s p) = StateRestarting"
    using assms(4) by (auto simp: startable_def)
  have guard: "start_guard p m s = Done (Next (), s1)"
    using st assms(5) by (auto simp: start_guard_eq s1_def)
  let ?df = "if ServiceType df = ''oneshot'' then df\<lparr>RemainAfterExit := True\<rparr> else df"
  have s1: "def (heap s1 p) = Some ?df" "cmds (heap s1 p) = cmds (heap s p)" "shutdown s1 = shutdown s"
      "locks s1 = locks s" "is_masked (heap s1 p) = is_masked (heap s p)"
      "dstate (heap s1 p) \<noteq> StateStopping" "q \<noteq> p \<Longrightarrow> heap s1 q = heap s q" for q
    using assms(5) st(5) by (auto simp: s1_def start_begun_def start_warned_def)
  have ev1: "events s1 = events s @ limit_warnings (dname (heap s p)) df"
    by (simp add: s1_def start_begun_def start_warned_def)
  let ?t1 = "s1\<lparr>ticks := ticks s1 + 1\<rparr>"
  have abort1: "check_abort E p s1 = Done (Next (), ?t1)"
    using st s1 by (intro check_abort_next assms) simp_all
  obtain t2 exited where t2: "stop_run E p (stop_begun False p ?t1) = Done (Next (), t2)"
    "dstate (heap t2 p) = StateStopped"
    "events t2 = events s1 @ stop_events E p ?df (cmd_pids (cmds (heap s p))) exited"
    using stop_run_trace [OF assms(1,2), of "stop_begun False p ?t1" p ?df] s1 st(4) by auto
  have stop: "stop E False (Some p) ?t1 = Done (None, t2)"
    using t2(1) s1 st by (simp add: stop_runs assms(3) go_fun_def)
  have same: "same_units s t2"
  proof -
    have "same_units s s1" using guard start_guard_units leavesD by blast
    moreover have "same_units s1 ?t1" by (rule units_emit)
    moreover have "same_units ?t1 t2" by (rule method_leavesD [OF stop_units [OF assms(1)] stop])
    ultimately show ?thesis using units.frame_trans by blast
  qed
  have own: "own_changes p s t2"
    using leavesD [OF stop_run_own [OF assms(1)] t2(1)] s1(2,7)
    by (auto simp: own_changes_def stop_begun_def)
  let ?t3 = "t2\<lparr>ticks := ticks t2 + 1\<rparr>"
  have abort2: "check_abort E p t2 = Done (Next (), ?t3)"
    using st same t2(2) by (intro check_abort_next assms) (simp_all add: same_units_def)
  have "go_bind (start_guard p m) (\<lambda>_. start_cleanup E p) s =
      Done (Next (), upd_daemon p (\<lambda>d. d\<lparr>state_error := None\<rparr>) ?t3)"
  proof -
    have "go_bind (start_guard p m) f s = f () s1" "go_bind (check_abort E p) f s1 = f () ?t1"
      "go_bind (check_abort E p) f t2 = f () ?t3" for f :: "unit \<Rightarrow> unit go"
      using guard abort1 abort2 by (auto intro: go_bind_next)
    moreover have "go_bind (go_call (stop E False (Some p))) f ?t1 = f None t2" for f :: "_ \<Rightarrow> unit go"
      using stop by (simp add: go_bind_def go_call_def)
    ultimately show ?thesis by (simp add: start_cleanup_def)
  qed
  moreover have "stop_events E p ?df ps b = stop_events E p df ps b" for ps b
    by (auto simp: stop_events_def)
  moreover have "same_units t2 (upd_daemon p (\<lambda>d. d\<lparr>state_error := None\<rparr>) ?t3)"
    by (simp add: same_units_def same_unit_def)
  ultimately show ?thesis
    using t2 ev1 own units.frame_trans [OF same]
    by (intro exI [of _ "upd_daemon p (\<lambda>d. d\<lparr>state_error := None\<rparr>) ?t3"] exI [of _ exited])
      (auto simp: own_changes_def)
qed

section \<open>Loops over commands\<close>

text \<open>Nothing makes \<open>startCheckAbortState\<close> give up.\<close>

definition unhindered :: "ref \<Rightarrow> sys \<Rightarrow> bool" where
  "unhindered p s = (\<not> shutdown s \<and> dstate (heap s p) \<noteq> StateStopping)"

definition healthy :: "env \<Rightarrow> bool" where
  "healthy E = (quiet E \<and> commands_end E \<and> (\<forall>t. log_opens E t) \<and>
     (\<forall>t spec. run_result E t spec = None \<and> spawn_result E t spec \<noteq> None))"

lemma healthyD:
  assumes "healthy E"
  shows "quiet E" "log_opens E t" "run_result E t spec = None" "spawn_result E t spec \<noteq> None"
    "run_ends E t spec" "commands_end E"
  using assms by (auto simp: healthy_def commands_end_def)

text \<open>The state after so many ticks and events.\<close>

definition passed :: "nat \<Rightarrow> event list \<Rightarrow> sys \<Rightarrow> sys" where
  "passed n es s = s\<lparr>events := events s @ es, ticks := ticks s + n\<rparr>"

lemma passed_simps [simp]:
  "heap (passed n es s) = heap s" "shutdown (passed n es s) = shutdown s" "locks (passed n es s) = locks s"
  "fs (passed n es s) = fs s" "dlist (passed n es s) = dlist s" "next_ref (passed n es s) = next_ref s"
  "events (passed n es s) = events s @ es" "ticks (passed n es s) = ticks s + n"
  by (simp_all add: passed_def)

lemma unhindered_passed [simp]: "unhindered p (passed n es s) = unhindered p s"
  by (simp add: unhindered_def)

lemma passed_passed [simp]: "passed n es (passed m ds s) = passed (m + n) (ds @ es) s"
  and passed_0: "passed 0 [] s = s"
  by (simp_all add: passed_def add.assoc)

lemma check_abort_passed:
  "quiet E \<Longrightarrow> unhindered p s \<Longrightarrow> check_abort E p s = Done (Next (), passed 1 [] s)"
  by (simp add: check_abort_next unhindered_def passed_def)

lemma run_passed:
  "quiet E \<Longrightarrow> yield_to E (emit e s) = passed 1 [e] s" "quiet E \<Longrightarrow> yield_to E s = passed 1 [] s"
  by (simp_all add: yield_quiet passed_def emit_def)

lemma go_for_passed:
  assumes "\<And>l s. l \<in> set ls \<Longrightarrow> unhindered p s \<Longrightarrow> f l s = Done (Next (), passed k [g l] s)"
  shows "unhindered p s \<Longrightarrow> go_for f ls s = Done (Next (), passed (k * length ls) (map g ls) s)"
  using assms
proof (induction ls arbitrary: s)
  case (Cons l ls)
  have "f l s = Done (Next (), passed k [g l] s)" by (simp add: Cons.prems)
  moreover have "go_for f ls (passed k [g l] s) =
      Done (Next (), passed (k * length ls) (map g ls) (passed k [g l] s))"
    by (rule Cons.IH) (simp_all add: Cons.prems)
  ultimately show ?case by (simp add: go_bind_next [where m = "f l"])
qed (simp add: passed_0)

definition command_event :: "env \<Rightarrow> ref \<Rightarrow> phase \<Rightarrow> string list \<Rightarrow> string \<Rightarrow> event" where
  "command_event E p ph denv l = RanCommand p ph ((plain_spec E (trim_prefix l ''-''))\<lparr>cs_env := denv\<rparr>)"

definition condition_event :: "env \<Rightarrow> ref \<Rightarrow> string list \<Rightarrow> string \<Rightarrow> event" where
  "condition_event E p denv l = RanCommand p PhCondition ((plain_spec E l)\<lparr>cs_env := denv\<rparr>)"

definition spawn_event :: "ref \<Rightarrow> string \<Rightarrow> string list \<Rightarrow> int \<times> int \<Rightarrow> string \<Rightarrow> string \<Rightarrow> event" where
  "spawn_event p n denv ids dir l =
     Spawned p \<lparr>cs_line = trim_prefix l ''-'', cs_env = denv @ [''SYSTEMD_SERVICE_NAME='' @ n],
       cs_dir = dir, cs_cred = credential ids\<rparr>"

lemma condition_line_passed:
  "healthy E \<Longrightarrow> unhindered p s \<Longrightarrow>
   condition_line E p denv l s = Done (Next (), passed 2 [condition_event E p denv l] s)"
  by (simp add: condition_line_def go_bind_next [OF check_abort_passed] healthyD run_passed condition_event_def)

lemma run_line_passed:
  "healthy E \<Longrightarrow> unhindered p s \<Longrightarrow>
   run_line E rec p ph denv l s = Done (Next (), passed 2 [command_event E p ph denv l] s)"
  by (simp add: run_line_def go_bind_next [OF check_abort_passed] healthyD run_passed command_event_def Let_def)

lemma spawn_line_passed:
  assumes "healthy E" "unhindered p s" "def (heap s p) = Some df"
  shows "\<exists>c. c \<noteq> None \<and> spawn_line E rec p denv ids l s =
    Done (Next c, passed 2 [spawn_event p (dname (heap s p)) denv ids (WorkingDirectory df) l] s)"
proof -
  let ?spec = "\<lparr>cs_line = trim_prefix l ''-'', cs_env = denv @ [''SYSTEMD_SERVICE_NAME='' @ dname (heap s p)],
       cs_dir = WorkingDirectory df, cs_cred = credential ids\<rparr>"
  let ?c = "spawn_result E (ticks s + 1) ?spec"
  have c: "?c \<noteq> None" using healthyD(4) [OF assms(1)] .
  have sp: "spawn E p ?spec (passed 1 [] s) = Done (Next ?c, passed 2 [Spawned p ?spec] s)"
    using c by (simp add: spawn_def Let_def run_passed healthyD(1) [OF assms(1)])
  have bind: "go_bind (spawn E p ?spec) f (passed 1 [] s) = f ?c (passed 2 [Spawned p ?spec] s)"
    for f :: "cmd \<Rightarrow> cmd go"
    using sp by (rule go_bind_next)
  have "spawn_line E rec p denv ids l s = Done (Next ?c, passed 2 [Spawned p ?spec] s)"
    using assms c by (simp add: spawn_line_def go_bind_next [OF check_abort_passed] healthyD Let_def
        go_bind_the_def bind [simplified])
  with c show ?thesis by (auto simp: spawn_event_def)
qed

lemma spawn_lines_passed:
  assumes "healthy E" "unhindered p s" "def (heap s p) = Some df"
  shows "\<exists>cs. None \<notin> set cs \<and> length cs = length ls \<and> spawn_lines E rec p denv ids ls s =
    Done (Next cs, passed (2 * length ls)
      (map (spawn_event p (dname (heap s p)) denv ids (WorkingDirectory df)) ls) s)"
  using assms
proof (induction ls arbitrary: s)
  case (Cons l ls)
  obtain c where c: "c \<noteq> None" "spawn_line E rec p denv ids l s =
    Done (Next c, passed 2 [spawn_event p (dname (heap s p)) denv ids (WorkingDirectory df) l] s)"
    using spawn_line_passed [OF Cons.prems] by blast
  let ?t = "passed 2 [spawn_event p (dname (heap s p)) denv ids (WorkingDirectory df) l] s"
  obtain cs where cs: "None \<notin> set cs" "length cs = length ls" "spawn_lines E rec p denv ids ls ?t =
    Done (Next cs, passed (2 * length ls)
      (map (spawn_event p (dname (heap ?t p)) denv ids (WorkingDirectory df)) ls) ?t)"
    using Cons.IH [of ?t] Cons.prems by auto
  have "spawn_lines E rec p denv ids (l # ls) s = Done (Next (c # cs), passed (2 * length (l # ls))
      (map (spawn_event p (dname (heap s p)) denv ids (WorkingDirectory df)) (l # ls)) s)"
  proof -
    have "go_bind (spawn_line E rec p denv ids l) f s = f c ?t" for f :: "cmd \<Rightarrow> cmd list go"
      using c(2) by (rule go_bind_next)
    moreover have "go_bind (spawn_lines E rec p denv ids ls) f ?t = f cs (passed (2 * length (l # ls))
      (map (spawn_event p (dname (heap s p)) denv ids (WorkingDirectory df)) (l # ls)) s)" for f :: "cmd list \<Rightarrow> cmd list go"
      using go_bind_next [where m = "spawn_lines E rec p denv ids ls" and f = f, OF cs(3)] by simp
    ultimately show ?thesis by simp
  qed
  then show ?case using c(1) cs(1,2) by (intro exI [of _ "c # cs"]) auto
qed (simp add: passed_0)

definition command_events ::
    "env \<Rightarrow> ref \<Rightarrow> string \<Rightarrow> daemondef \<Rightarrow> string list \<Rightarrow> int \<times> int \<Rightarrow> event list" where
  "command_events E p n df denv ids =
     map (command_event E p PhStartPre denv) (execs df ExecStartPre) @
     map (spawn_event p n denv ids (WorkingDirectory df)) (execs df ExecStart) @
     map (command_event E p PhStartPost denv) (execs df ExecStartPost) @ [MonitorForked p]"

lemma start_finish_run:
  assumes "quiet E" "unhindered p s" "def (heap s p) = Some df" "deps df OnSuccess = []"
  shows "start_finish E rec p cs s = Done (Next (), upd_daemon p
    (\<lambda>d. d\<lparr>dstate := StateRunning, state_error := None, cmds := cs\<rparr>) (passed 1 [MonitorForked p] s))"
  using assms
  by (simp add: start_finish_def run_passed unhindered_def run_linked_def go_bind_assoc go_bind_the_def emit_def
      passed_def upd_daemon_def)

lemma start_commands_run:
  assumes "healthy E" "unhindered p s" "def (heap s p) = Some df" "deps df OnSuccess = []"
  shows "\<exists>t cs. start_commands E rec p denv ids s = Done (Next (), t) \<and>
    dstate (heap t p) = StateRunning \<and> state_error (heap t p) = None \<and> cmds (heap t p) = cs \<and>
    None \<notin> set cs \<and> length cs = length (execs df ExecStart) \<and>
    events t = events s @ command_events E p (dname (heap s p)) df denv ids"
proof -
  let ?run = "\<lambda>ph ls. go_for (run_line E rec p ph denv) ls"
  have loop: "go_bind (?run ph ls) f s = f () (passed (2 * length ls) (map (command_event E p ph denv) ls) s)"
    if "unhindered p s" for ph ls s and f :: "unit \<Rightarrow> unit go"
    using go_for_passed [of ls p "run_line E rec p ph denv", OF run_line_passed [OF assms(1)] that]
    by (rule go_bind_next)
  define s1 where "s1 = passed (2 * length (execs df ExecStartPre))
      (map (command_event E p PhStartPre denv) (execs df ExecStartPre)) s"
  define s2 where "s2 = passed (2 * length (execs df ExecStart))
      (map (spawn_event p (dname (heap s p)) denv ids (WorkingDirectory df)) (execs df ExecStart)) s1"
  define s3 where "s3 = passed (2 * length (execs df ExecStartPost))
      (map (command_event E p PhStartPost denv) (execs df ExecStartPost)) s2"
  have st: "unhindered p s1" "unhindered p s2" "unhindered p s3" "heap s1 = heap s" "heap s2 = heap s" "heap s3 = heap s"
    using assms(2) by (simp_all add: s1_def s2_def s3_def)
  obtain cs where cs: "None \<notin> set cs" "length cs = length (execs df ExecStart)"
    "spawn_lines E rec p denv ids (execs df ExecStart) s1 = Done (Next cs, s2)"
    using spawn_lines_passed [OF assms(1) st(1), of df "execs df ExecStart" rec denv ids] assms(3)
    unfolding st s2_def by blast
  have spawns: "go_bind (spawn_lines E rec p denv ids (execs df ExecStart)) f s1 = f cs s2" for f :: "cmd list \<Rightarrow> unit go"
    using cs(3) by (rule go_bind_next)
  have "start_commands E rec p denv ids s = start_finish E rec p cs s3"
    using assms(2,3) st spawns
    by (simp add: start_commands_def go_bind_the_def loop flip: s1_def s2_def s3_def)
  also have "\<dots> = Done (Next (), upd_daemon p
    (\<lambda>d. d\<lparr>dstate := StateRunning, state_error := None, cmds := cs\<rparr>) (passed 1 [MonitorForked p] s3))"
    using start_finish_run [OF healthyD(1) [OF assms(1)] st(3)] assms(3,4) st by simp
  finally show ?thesis using cs
    by (auto simp: s1_def s2_def s3_def command_events_def)
qed

section \<open>Up to the dependencies\<close>

text \<open>The environment files can be read and the user and the group exist.\<close>

definition settings :: "env \<Rightarrow> daemondef \<Rightarrow> sys \<Rightarrow> string list \<Rightarrow> int \<times> int \<Rightarrow> bool" where
  "settings E df s denv ids \<longleftrightarrow>
     read_env_files (fs s) (EnvFile df) (os_environ E @ Env df) = Inr denv \<and>
     start_ids E df s = Done (Next ids, s)"

lemma start_ids_state: "start_ids E df s = Done (Next ids, s) \<Longrightarrow> start_ids E df t = Done (Next ids, t)"
  unfolding start_ids_def by (auto simp: go_bind_def split: option.splits if_splits prod.splits)

lemma core_same: "map_option core (Some df) = map_option core x \<Longrightarrow> \<exists>b. x = Some (df\<lparr>RemainAfterExit := b\<rparr>)"
proof (cases x)
  case (Some d)
  assume "map_option core (Some df) = map_option core x"
  with Some have "core df = core d" by simp
  then have "d = df\<lparr>RemainAfterExit := RemainAfterExit d\<rparr>"
    unfolding core_def by (metis daemondef.surjective daemondef.update_convs(7))
  with Some show ?thesis by blast
qed simp

lemma start_reaches_deps:
  assumes "healthy E" "startable p s" "def (heap s p) = Some df" "settings E df s denv ids"
  shows "\<exists>t b exited. start_body E rec p m s =
      go_bind (start_deps E rec p) (\<lambda>_. start_commands E rec p denv ids) t \<and>
    same_units s t \<and> dstate (heap t p) = StateStopped \<and> def (heap t p) = Some (df\<lparr>RemainAfterExit := b\<rparr>) \<and>
    (\<forall>q. cmds (heap t q) = cmds (heap s q) \<and> (q \<noteq> p \<longrightarrow> heap t q = heap s q)) \<and>
    events t = events s @ limit_warnings (dname (heap s p)) df @
      stop_events E p df (cmd_pids (cmds (heap s p))) exited @
      map (condition_event E p denv) (execs df ExecCondition)"
proof -
  note E = healthyD [OF assms(1)]
  obtain t exited where t: "go_bind (start_guard p m) (\<lambda>_. start_cleanup E p) s = Done (Next (), t)"
    "same_units s t" "dstate (heap t p) = StateStopped"
    "\<forall>q. cmds (heap t q) = cmds (heap s q) \<and> (q \<noteq> p \<longrightarrow> heap t q = heap s q)"
    "events t = events s @ limit_warnings (dname (heap s p)) df @
      stop_events E p df (cmd_pids (cmds (heap s p))) exited"
    using start_begin_runs [OF E(1,6,2) assms(2,3), of m] by blast
  have "map_option core (Some df) = map_option core (def (heap t p))"
    using t(2) assms(3) by (simp add: same_units_def same_unit_def)
  then obtain b where b: "def (heap t p) = Some (df\<lparr>RemainAfterExit := b\<rparr>)" using core_same by blast
  define df' where "df' = df\<lparr>RemainAfterExit := b\<rparr>"
  have env: "start_env E df' t = Done (Next denv, t)"
    using assms(4) t(2) by (simp add: start_env_def settings_def same_units_def df'_def)
  have "User df' = User df" "Group df' = Group df" by (simp_all add: df'_def)
  then have "start_ids E df' t = start_ids E df t" by (simp only: start_ids_def)
  then have ids: "start_ids E df' t = Done (Next ids, t)"
    using start_ids_state assms(4) unfolding settings_def by metis
  define v where "v = passed 1 [] t"
  let ?conds = "map (condition_event E p denv) (execs df ExecCondition)"
  define u where "u = passed (2 * length (execs df ExecCondition)) ?conds v"
  have log: "start_logger E p t = Done (Next (), v)"
    by (simp add: start_logger_def E passed_def v_def)
  have un: "unhindered p v"
    using t(2,3) assms(2) by (simp add: unhindered_def startable_def same_units_def v_def)
  have conds: "go_for (condition_line E p denv) (execs df' ExecCondition) v = Done (Next (), u)"
    using go_for_passed [OF condition_line_passed [OF assms(1)] un] by (simp add: df'_def u_def)
  have binds: "go_bind (go_bind (start_guard p m) (\<lambda>_. start_cleanup E p)) f s = f () t"
      "go_bind (start_logger E p) f t = f () v"
      "go_bind (go_for (condition_line E p denv) (execs df' ExecCondition)) f v = f () u"
      "go_bind (start_env E df') g t = g denv t" "go_bind (start_ids E df') k t = k ids t"
    for f :: "unit \<Rightarrow> unit go" and g :: "string list \<Rightarrow> unit go" and k :: "int \<times> int \<Rightarrow> unit go"
    by (rule go_bind_next, fact t(1) log conds env ids)+
  have "start_body E rec p m s = go_bind (start_deps E rec p) (\<lambda>_. start_commands E rec p denv ids) u"
    using b unfolding start_body_def go_bind_assoc [symmetric, of "start_guard p m"]
    by (simp add: binds go_bind_the_def flip: df'_def)
  moreover have "same_units s u"
    using t(2) by (simp add: v_def u_def same_units_def)
  moreover have "heap u = heap t" "events u = events t @ ?conds" by (simp_all add: u_def v_def)
  ultimately show ?thesis using t b
    by (intro exI [of _ u] exI [of _ b] exI [of _ exited]) simp
qed

definition no_deps :: "daemondef \<Rightarrow> bool" where
  "no_deps df = (\<forall>k \<in> {Requisite, Requires, BindsTo, Wants, Upholds, Conflicts, OnSuccess}. deps df k = [])"

lemma start_deps_none:
  "no_deps df \<Longrightarrow> def (heap s p) = Some df \<Longrightarrow> start_deps E rec p s = Done (Next (), s)"
  by (simp add: start_deps_def go_bind_the_def no_deps_def)

lemma start_runs:
  assumes "healthy E" "startable p s" "def (heap s p) = Some df" "settings E df s denv ids" "no_deps df"
  shows "\<exists>s' exited cs. start (Suc n) E (Some p) m s = Done (None, s') \<and>
    dstate (heap s' p) = StateRunning \<and> state_error (heap s' p) = None \<and>
    cmds (heap s' p) = cs \<and> None \<notin> set cs \<and> length cs = length (execs df ExecStart) \<and>
    events s' = events s @ limit_warnings (dname (heap s p)) df @
      stop_events E p df (cmd_pids (cmds (heap s p))) exited @
      map (condition_event E p denv) (execs df ExecCondition) @
      command_events E p (dname (heap s p)) df denv ids"
proof -
  let ?rec = "start n E"
  obtain t b exited where t: "start_body E ?rec p m s =
      go_bind (start_deps E ?rec p) (\<lambda>_. start_commands E ?rec p denv ids) t"
    "same_units s t" "dstate (heap t p) = StateStopped" "def (heap t p) = Some (df\<lparr>RemainAfterExit := b\<rparr>)"
    "events t = events s @ limit_warnings (dname (heap s p)) df @
      stop_events E p df (cmd_pids (cmds (heap s p))) exited @
      map (condition_event E p denv) (execs df ExecCondition)"
    using start_reaches_deps [OF assms(1-4), of ?rec m] by blast
  let ?df = "df\<lparr>RemainAfterExit := b\<rparr>"
  have deps: "start_deps E ?rec p t = Done (Next (), t)" 
    using start_deps_none [of ?df] t(4) assms(5) by (simp add: no_deps_def)
  have un: "unhindered p t"
    using t(2,3) assms(2) by (simp add: unhindered_def startable_def same_units_def)
  have "deps ?df OnSuccess = []" using assms(5) by (simp add: no_deps_def)
  from start_commands_run [OF assms(1) un t(4) this, of ?rec denv ids]
  obtain s' cs where s': "start_commands E ?rec p denv ids t = Done (Next (), s')"
    "dstate (heap s' p) = StateRunning" "state_error (heap s' p) = None" "cmds (heap s' p) = cs"
    "None \<notin> set cs" "length cs = length (execs df ExecStart)"
    "events s' = events t @ command_events E p (dname (heap t p)) ?df denv ids"
    by auto
  have "start (Suc n) E (Some p) m s = Done (None, s')"
  proof -
    have "go_bind (start_deps E ?rec p) f t = f () t" for f :: "unit \<Rightarrow> unit go"
      using deps by (rule go_bind_next)
    then show ?thesis using s'(1) t(1) by (simp add: go_fun_def)
  qed
  moreover have "dname (heap t p) = dname (heap s p)" using t(2) by (simp add: same_units_def same_unit_def)
  moreover have "command_events E p nm ?df denv ids = command_events E p nm df denv ids" for nm
    by (simp add: command_events_def)
  ultimately show ?thesis using s' t(5) by auto
qed

text \<open>
  C1. A start that nothing disturbs, of a service without dependencies: the limits are warned about,
  the old run is stopped, then the conditions, the pre commands, the main commands and the post
  commands run in the order of the unit file with the environment, the directory and the
  credentials of the service, and its processes are handed to the monitor. The service is running
  without an error, with one command for every \<open>ExecStart\<close>.
\<close>

theorem start_trace:
  assumes "healthy E" "startable p s" "def (heap s p) = Some df" "settings E df s denv ids" "no_deps df"
  shows "\<exists>s' exited cs. start (Suc n) E (Some p) m s = Done (None, s') \<and>
    dstate (heap s' p) = StateRunning \<and> state_error (heap s' p) = None \<and>
    cmds (heap s' p) = cs \<and> None \<notin> set cs \<and> length cs = length (execs df ExecStart) \<and>
    events s' = events s @ limit_warnings (dname (heap s p)) df @
      stop_events E p df (cmd_pids (cmds (heap s p))) exited @
      map (condition_event E p denv) (execs df ExecCondition) @
      command_events E p (dname (heap s p)) df denv ids"
  by (rule start_runs [OF assms])

lemma calm_healthy: "healthy (calm_env n)"
  by (simp add: healthy_def calm_quiet calm_ends) (simp add: calm_env_def)

definition shop :: daemondef where
  "shop = empty_def\<lparr>execs := (\<lambda>_. [])(ExecStartPre := [''-true''], ExecStart := [''sleep 9'', ''-cat'']),
     Env := [''A=1'']\<rparr>"

text \<open>A process whose services have these definitions, all stopped.\<close>

definition resting :: "daemondef list \<Rightarrow> sys" where
  "resting dfs = (init_sys [])
     \<lparr>heap := (\<lambda>r. if r < length dfs then (new_daemon [CHR ''a''] [])\<lparr>def := Some (dfs ! r)\<rparr> else new_daemon [] []),
      next_ref := length dfs\<rparr>"

theorem start_trace_witness:
  "\<exists>s' cs. start 1 (calm_env 0) (Some 0) True (resting [shop]) = Done (None, s') \<and>
     dstate (heap s' 0) = StateRunning \<and> cmds (heap s' 0) = cs \<and> length cs = 2 \<and>
     last (events s') = MonitorForked 0"
proof -
  have "startable 0 (resting [shop])" "def (heap (resting [shop]) 0) = Some shop"
    "settings (calm_env 0) shop (resting [shop]) [''A=1''] (0, 0)" "no_deps shop"
    by (simp_all add: startable_def resting_def init_sys_def new_daemon_def settings_def shop_def empty_def_def
        no_deps_def calm_env_def start_ids_def)
  from start_trace [OF calm_healthy this, of 0 True] show ?thesis
    by (auto simp: command_events_def shop_def)
qed

section \<open>A requisite that does not run\<close>

lemma run_linked_none:
  "def (heap s p) = Some df \<Longrightarrow> deps df k = [] \<Longrightarrow> run_linked rec k p s = Done (Next (), s)"
  by (simp add: run_linked_def go_bind_the_def)

lemma give_up_none:
  assumes "def (heap s p) = Some df" "deps df OnFailure = []"
  shows "give_up rec p e r s =
    Done (Return r, upd_daemon p (\<lambda>d. d\<lparr>dstate := StateStopped, state_error := Some e\<rparr>) s)"
proof -
  have "run_linked rec OnFailure p (upd_daemon p (\<lambda>d. d\<lparr>dstate := StateStopped, state_error := Some e\<rparr>) s) =
      Done (Next (), upd_daemon p (\<lambda>d. d\<lparr>dstate := StateStopped, state_error := Some e\<rparr>) s)"
    using assms by (intro run_linked_none [of _ _ df]) simp_all
  then show ?thesis by (simp add: give_up_def go_bind_def)
qed

text \<open>
  C14. A start whose first requisite is not running does not start the service, but it returns no
  error: the caller is told that the service was started, while its status is stopped with an
  error.
\<close>

theorem requisite_failure_returns_nil:
  assumes "healthy E" "startable p s" "def (heap s p) = Some df" "settings E df s denv ids"
    and "deps df Requisite = (x, Some q) # rest" "deps df OnFailure = []"
    and "q \<noteq> p" "q \<notin> set (locks s)" "dstate (heap s q) \<noteq> StateRunning"
  shows "\<exists>s'. start (Suc n) E (Some p) m s = Done (None, s') \<and> dstate (heap s' p) = StateStopped \<and>
    state_error (heap s' p) = Some (DepNotRunning (dname (heap s q)))"
proof -
  let ?rec = "start n E"
  obtain t b where t: "start_body E ?rec p m s =
      go_bind (start_deps E ?rec p) (\<lambda>_. start_commands E ?rec p denv ids) t"
    "same_units s t" "dstate (heap t p) = StateStopped" "def (heap t p) = Some (df\<lparr>RemainAfterExit := b\<rparr>)"
    "heap t q = heap s q"
    using start_reaches_deps [OF assms(1-4), of ?rec m] assms(7) by metis
  define v where "v = passed 1 [] t"
  let ?err = "DepNotRunning (dname (heap s q))"
  let ?gone = "upd_daemon p (\<lambda>d. d\<lparr>dstate := StateStopped, state_error := Some ?err\<rparr>) v"
  have un: "unhindered p t"
    using t(2,3) assms(2) by (simp add: unhindered_def startable_def same_units_def)
  have v: "heap v = heap t" "locks v = locks s" using t(2) by (simp_all add: v_def same_units_def)
  have "give_up ?rec p ?err None v = Done (Return None, ?gone)"
    using give_up_none [of v p "df\<lparr>RemainAfterExit := b\<rparr>"] t(4) v assms(6) by simp
  moreover have "go_bind (check_abort E p) f t = f () v" for f :: "unit \<Rightarrow> unit go"
    unfolding v_def by (rule go_bind_next) (rule check_abort_passed [OF healthyD(1) [OF assms(1)] un])
  ultimately have "require_running E ?rec p (x, Some q) t = Done (Return None, ?gone)"
    using t(5) v assms(8,9) by (simp add: require_running_def go_bind_lock)
  then have "start_deps E ?rec p t = Done (Return None, ?gone)"
    using t(4) assms(5) by (simp add: start_deps_def go_bind_the_def go_bind_return)
  then have "start (Suc n) E (Some p) m s = Done (None, ?gone)"
    using t(1) by (simp add: go_fun_def go_bind_return)
  then show ?thesis by auto
qed

theorem requisite_failure_returns_nil_witness:
  "\<exists>s'. start 1 (calm_env 0) (Some 0) True
      (resting [put_dep Requisite ''b'' (Some 1) empty_def, empty_def]) = Done (None, s') \<and>
    dstate (heap s' 0) = StateStopped"
proof -
  let ?d = "put_dep Requisite ''b'' (Some 1) empty_def"
  have "startable 0 (resting [?d, empty_def])" "def (heap (resting [?d, empty_def]) 0) = Some ?d"
    "settings (calm_env 0) ?d (resting [?d, empty_def]) [] (0, 0)"
    "deps ?d Requisite = [(''b'', Some 1)]" "deps ?d OnFailure = []"
    "1 \<noteq> (0::nat)" "1 \<notin> set (locks (resting [?d, empty_def]))"
    "dstate (heap (resting [?d, empty_def]) 1) \<noteq> StateRunning"
    by (simp_all add: startable_def resting_def init_sys_def new_daemon_def settings_def empty_def_def
        put_dep_def calm_env_def start_ids_def)
  from requisite_failure_returns_nil [OF calm_healthy this, of 0 True] show ?thesis by auto
qed

section \<open>A cycle of requirements\<close>

text \<open>Every service of \<open>C\<close> can be started and its first requirement is in \<open>C\<close>.\<close>

definition requires_within :: "env \<Rightarrow> ref set \<Rightarrow> sys \<Rightarrow> bool" where
  "requires_within E C s = (\<forall>p\<in>C. startable p s \<and> (\<exists>df denv ids x q rest. def (heap s p) = Some df \<and>
     settings E df s denv ids \<and> deps df Requisite = [] \<and> deps df Requires = (x, Some q) # rest \<and> q \<in> C))"

lemma settings_same:
  "settings E df s denv ids \<Longrightarrow> fs t = fs s \<Longrightarrow> settings E (df\<lparr>RemainAfterExit := b\<rparr>) t denv ids"
proof -
  assume a: "settings E df s denv ids" "fs t = fs s"
  have "User (df\<lparr>RemainAfterExit := b\<rparr>) = User df" "Group (df\<lparr>RemainAfterExit := b\<rparr>) = Group df" by simp_all
  then have "start_ids E (df\<lparr>RemainAfterExit := b\<rparr>) t = start_ids E df t" by (simp only: start_ids_def)
  also have "\<dots> = Done (Next ids, t)" using a(1) start_ids_state unfolding settings_def by blast
  finally show ?thesis using a unfolding settings_def by simp
qed

lemma start_requires_diverge:
  assumes "healthy E"
  shows "requires_within E C s \<Longrightarrow> p \<in> C \<Longrightarrow> start n E (Some p) m s = Diverge"
proof (induction n arbitrary: p m s)
  case (Suc n)
  let ?rec = "start n E"
  from Suc.prems obtain df denv ids x q rest where df: "startable p s" "def (heap s p) = Some df"
    "settings E df s denv ids" "deps df Requisite = []" "deps df Requires = (x, Some q) # rest" "q \<in> C"
    unfolding requires_within_def by blast
  obtain t b where t: "start_body E ?rec p m s =
      go_bind (start_deps E ?rec p) (\<lambda>_. start_commands E ?rec p denv ids) t"
    "same_units s t" "dstate (heap t p) = StateStopped" "def (heap t p) = Some (df\<lparr>RemainAfterExit := b\<rparr>)"
    "\<forall>q. cmds (heap t q) = cmds (heap s q) \<and> (q \<noteq> p \<longrightarrow> heap t q = heap s q)"
    using start_reaches_deps [OF assms df(1-3), of ?rec m] by blast
  define v where "v = passed 1 [] t"
  have un: "unhindered p t"
    using t(2,3) df(1) by (simp add: unhindered_def startable_def same_units_def)
  have v: "heap v = heap t" "locks v = locks s" "fs v = fs s" "shutdown v = shutdown s"
    using t(2) by (simp_all add: v_def same_units_def)
  have "requires_within E C v"
    unfolding requires_within_def
  proof
    fix r assume "r \<in> C"
    then obtain d denv ids x q rest where d: "startable r s" "def (heap s r) = Some d"
      "settings E d s denv ids" "deps d Requisite = []" "deps d Requires = (x, Some q) # rest" "q \<in> C"
      using Suc.prems(1) unfolding requires_within_def by blast
    have "map_option core (Some d) = map_option core (def (heap v r))"
      using t(2) d(2) v by (simp add: same_units_def same_unit_def)
    then obtain b where b: "def (heap v r) = Some (d\<lparr>RemainAfterExit := b\<rparr>)" using core_same by blast
    have "startable r v"
    proof (cases "r = p")
      case True
      then show ?thesis using d(1) t(2,3,5) b v by (simp add: startable_def same_units_def same_unit_def)
    next
      case False
      then have "heap v r = heap s r" using t(5) v by simp
      with d(1) v show ?thesis by (simp add: startable_def)
    qed
    moreover have "settings E (d\<lparr>RemainAfterExit := b\<rparr>) v denv ids" by (rule settings_same [OF d(3) v(3)])
    ultimately show "startable r v \<and> (\<exists>df denv ids x q rest. def (heap v r) = Some df \<and>
     settings E df v denv ids \<and> deps df Requisite = [] \<and> deps df Requires = (x, Some q) # rest \<and> q \<in> C)"
      using b d(4-6)
      by (intro conjI exI [of _ "d\<lparr>RemainAfterExit := b\<rparr>"] exI [of _ denv] exI [of _ ids] exI [of _ x]
          exI [of _ q] exI [of _ rest]) simp_all
  qed
  then have "start n E (Some q) False v = Diverge" using Suc.IH df(6) by blast
  moreover have "go_bind (check_abort E p) f t = f () v" for f :: "unit \<Rightarrow> unit go"
    unfolding v_def by (rule go_bind_next) (rule check_abort_passed [OF healthyD(1) [OF assms] un])
  ultimately have "must_succeed E ?rec (\<lambda>i. ?rec i False) p (x, Some q) t = Diverge"
    by (simp add: must_succeed_def go_bind_diverge go_call_def)
  then have "start_deps E ?rec p t = Diverge"
    using t(4) df(4,5) by (simp add: start_deps_def go_bind_the_def go_bind_diverge)
  then show ?case using t(1) by (simp add: go_fun_def go_bind_diverge)
qed simp

text \<open>
  C13. A cycle of \<open>Requires\<close> is not detected: the start of a service in it calls itself without end,
  because the state starting, on which a second start returns at once, is already gone when the
  requirements are started.
\<close>

theorem requires_cycle_never_returns:
  assumes "healthy E" "requires_within E C s" "p \<in> C"
  shows "\<forall>n. start n E (Some p) m s = Diverge"
  using start_requires_diverge [OF assms] by blast

definition cyclic_sys :: sys where
  "cyclic_sys = resting [put_dep Requires ''b'' (Some 1) empty_def, put_dep Requires ''a'' (Some 0) empty_def]"

theorem requires_cycle_never_returns_witness:
  "\<forall>n. start n (calm_env 0) (Some 0) True cyclic_sys = Diverge"
proof -
  have "requires_within (calm_env 0) {0, 1} cyclic_sys"
    by (simp add: requires_within_def cyclic_sys_def startable_def resting_def init_sys_def new_daemon_def
        settings_def empty_def_def put_dep_def calm_env_def start_ids_def)
  from requires_cycle_never_returns [OF calm_healthy this, of 0 True] show ?thesis by simp
qed

section \<open>What a start leaves behind\<close>

lemma start_down: "shutdown s \<Longrightarrow> start n E i m s = Done (e, s') \<Longrightarrow> s' = s"
  by (cases n; cases i) (auto simp: go_fun_def go_bind_def start_body_def start_guard_eq)

text \<open>
  C5. A start leaves no service in the state starting, unless the shutdown begins while it runs: when it
  returns, whatever the outcome, every service that is starting was starting before, the service itself
  and those it depends on included. The other goroutines may do anything meanwhile but begin the start
  of a service themselves.
\<close>

theorem start_leaves_none_starting:
  assumes "\<And>t s. no_new_starting UNIV s (others E t s)" "\<And>t s. shutdown s \<Longrightarrow> shutdown (others E t s)"
    and "start n E i m s = Done (e, s')" "shutdown s' \<Longrightarrow> shutdown s"
  shows "{q. dstate (heap s' q) = StateStarting} \<subseteq> {q. dstate (heap s q) = StateStarting}"
proof (cases "shutdown s'")
  case True
  with start_down [OF assms(4) assms(3)] show ?thesis by simp
next
  case False
  have "none_starting UNIV s s'"
    using assms(1,2) by (intro mild_env.start_none_starting [OF mild_env.intro assms(3)]) (simp add: starts_nothing_def)
  with False show ?thesis by (auto simp: none_starting_def no_new_starting_def)
qed

lemma shop_runs:
  "\<exists>s'. start 1 (calm_env 0) (Some 0) True (resting [shop]) = Done (None, s')"
proof -
  have "startable 0 (resting [shop])" "def (heap (resting [shop]) 0) = Some shop"
    "settings (calm_env 0) shop (resting [shop]) [''A=1''] (0, 0)" "no_deps shop"
    by (simp_all add: startable_def resting_def init_sys_def new_daemon_def settings_def shop_def empty_def_def
        no_deps_def calm_env_def start_ids_def)
  from start_runs [OF calm_healthy this, of 0 True] show ?thesis by auto
qed

theorem start_leaves_none_starting_witness:
  "\<exists>s'. start 1 (calm_env 0) (Some 0) True (resting [shop]) = Done (None, s') \<and>
     {q. dstate (heap s' q) = StateStarting} = {}"
proof -
  obtain s' where s': "start 1 (calm_env 0) (Some 0) True (resting [shop]) = Done (None, s')"
    using shop_runs by blast
  have "{q. dstate (heap (resting [shop]) q) = StateStarting} = {}"
    by (simp add: resting_def init_sys_def new_daemon_def)
  moreover have "no_new_starting UNIV t (others (calm_env 0) n t)" "others (calm_env 0) n t = t" for t n
    by (simp_all add: calm_env_def no_new_starting_def)
  moreover have "\<not> shutdown s'"
    using method_leavesD [OF calm.units.leaves_start s'] by (simp add: same_units_def resting_def init_sys_def)
  ultimately show ?thesis using start_leaves_none_starting [OF _ _ s'] s' by auto
qed

text \<open>
  C6. A start keeps the registry: the services and their names, their files, masks and definitions
  (only \<open>RemainAfterExit\<close> of a oneshot service is set), the flag of the shutdown, and every lock
  taken for a call is given back.
\<close>

theorem start_keeps_units:
  assumes "quiet E" "start n E i m s = Done (e, s')"
  shows "same_units s s'"
  by (rule quiet_env.start_same_units [OF quiet_env.intro [OF assms(1)] assms(2)])

theorem start_keeps_units_witness:
  "\<exists>s'. start 1 (calm_env 0) (Some 0) True (resting [shop]) = Done (None, s') \<and> locks s' = [] \<and>
     map_option core (def (heap s' 0)) = Some (core shop)"
proof -
  obtain s' where s': "start 1 (calm_env 0) (Some 0) True (resting [shop]) = Done (None, s')"
    using shop_runs by blast
  have "locks (resting [shop]) = []" "def (heap (resting [shop]) 0) = Some shop"
    by (simp_all add: resting_def init_sys_def)
  with start_keeps_units [OF calm_quiet s'] have "locks s' = []" "map_option core (def (heap s' 0)) = Some (core shop)"
    unfolding same_units_def same_unit_def by simp_all
  with s' show ?thesis by blast
qed

end
