(* ===== verification/StartTerm.thy ===== *)
theory StartTerm
  imports StartRuns
begin

text \<open>
  Starts end. \<open>halts\<close> is a small logic of bodies that are never stuck; a ranking of the dependencies
  bounds the depth of the calls of \<open>start\<close> and orders the locks that its call chain takes (\<open>ranked_env\<close>).
\<close>

section \<open>Bodies that end\<close>

text \<open>What never returns: running for ever, waiting for a lock or for a process that is not reaped. A panic is an end.\<close>

definition stuck :: "'a outcome \<Rightarrow> bool" where
  "stuck o1 = (o1 \<in> {Diverge, Crash SelfDeadlock, Crash NeverReaped})"

lemma stuck_simps [simp]: "\<not> stuck (Done x)" "stuck Diverge" "stuck (Crash c) = (c \<in> {SelfDeadlock, NeverReaped})"
  by (simp_all add: stuck_def)

text \<open>From a state with \<open>I\<close>, \<open>m\<close> is never stuck, keeps \<open>I\<close>, and a value it goes on with has \<open>Q\<close>.\<close>

definition halts :: "(sys \<Rightarrow> bool) \<Rightarrow> 'a go \<Rightarrow> ('a \<Rightarrow> bool) \<Rightarrow> bool" where
  "halts I m Q = (\<forall>s. I s \<longrightarrow> \<not> stuck (m s) \<and>
     (\<forall>x s'. m s = Done (x, s') \<longrightarrow> I s' \<and> (\<forall>a. x = Next a \<longrightarrow> Q a)))"

definition method_halts :: "(sys \<Rightarrow> bool) \<Rightarrow> go_method \<Rightarrow> bool" where
  "method_halts I m = (\<forall>s. I s \<longrightarrow> \<not> stuck (m s) \<and> (\<forall>e s'. m s = Done (e, s') \<longrightarrow> I s'))"

abbreviation ends_any :: "(sys \<Rightarrow> bool) \<Rightarrow> 'a go \<Rightarrow> bool" where
  "ends_any I m \<equiv> halts I m (\<lambda>_. True)"

lemma halts_bind:
  assumes "halts I m Q" "\<And>a. Q a \<Longrightarrow> halts I (f a) R"
  shows "halts I (go_bind m f) R"
  unfolding halts_def
proof (intro allI impI conjI)
  fix s assume s: "I s"
  show "\<not> stuck (go_bind m f s)"
  proof (cases "m s")
    case (Done y)
    obtain z t where y: "y = (z, t)" by force
    show ?thesis
    proof (cases z)
      case (Next a)
      then have "I t" "Q a" using assms(1) s Done y unfolding halts_def by blast+
      then have "\<not> stuck (f a t)" using assms(2) unfolding halts_def by blast
      then show ?thesis using Done y Next by (simp add: go_bind_next)
    qed (use Done y in \<open>simp add: go_bind_def\<close>)
  next
    case Diverge
    moreover have "\<not> stuck (m s)" using assms(1) s unfolding halts_def by blast
    ultimately show ?thesis by simp
  next
    case (Crash c)
    moreover have "\<not> stuck (m s)" using assms(1) s unfolding halts_def by blast
    ultimately show ?thesis by (simp add: go_bind_crash)
  qed
  fix x s' assume "go_bind m f s = Done (x, s')"
  then have "I s' \<and> (\<forall>a. x = Next a \<longrightarrow> R a)"
  proof (cases rule: go_bind_DoneE)
    case (goes a t)
    then show ?thesis using assms s unfolding halts_def by metis
  next
    case (returns e)
    then show ?thesis using assms(1) s unfolding halts_def by auto
  qed
  then show "I s'" "\<And>a. x = Next a \<Longrightarrow> R a" by simp_all
qed

lemma halts_any: "halts I m Q \<Longrightarrow> ends_any I m"
  unfolding halts_def by blast

lemma halts_seq: "ends_any I m \<Longrightarrow> (\<And>a. ends_any I (f a)) \<Longrightarrow> ends_any I (go_bind m f)"
  by (rule halts_bind)

lemma halts_pure: "ends_any I (go_next x)" "ends_any I (go_return e)" "ends_any I (go_get g)"
    "ends_any I (the_def p)" "ends_any I (\<lambda>s. Crash NilDeref)" "ends_any I (\<lambda>s. Done (y, s))"
  by (auto simp: halts_def the_def_def split: option.splits if_splits)

lemma halts_modify: "(\<And>s. I s \<Longrightarrow> I (f s)) \<Longrightarrow> ends_any I (go_modify f)"
  by (simp add: halts_def)

lemma halts_for: "(\<And>x. x \<in> set xs \<Longrightarrow> ends_any I (f x)) \<Longrightarrow> ends_any I (go_for f xs)"
  by (induction xs) (auto intro!: halts_pure halts_seq)

lemma halts_call: "method_halts I c \<Longrightarrow> ends_any I (go_call c)"
  unfolding halts_def method_halts_def
proof (intro allI impI)
  fix s assume c: "\<forall>s. I s \<longrightarrow> \<not> stuck (c s) \<and> (\<forall>e s'. c s = Done (e, s') \<longrightarrow> I s')" and s: "I s"
  then have "\<not> stuck (c s)" "\<forall>e s'. c s = Done (e, s') \<longrightarrow> I s'" by blast+
  then show "\<not> stuck (go_call c s) \<and> (\<forall>x s'. go_call c s = Done (x, s') \<longrightarrow> I s' \<and> (\<forall>a. x = Next a \<longrightarrow> True))"
    by (cases "c s") (auto simp: go_call_def)
qed

lemma halts_fun: "ends_any I m \<Longrightarrow> method_halts I (go_fun m)"
  unfolding method_halts_def
proof (intro allI impI conjI)
  fix s assume m: "ends_any I m" and s: "I s"
  then have "\<not> stuck (m s)" unfolding halts_def by blast
  then show "\<not> stuck (go_fun m s)"
    by (cases "m s") (auto simp: go_fun_def split: flow.splits)
  fix e s' assume "go_fun m s = Done (e, s')"
  then obtain y where "m s = Done (y, s')" by (rule go_fun_DoneE)
  with m s show "I s'" by (auto simp: halts_def)
qed

lemmas halts_intros = halts_pure halts_for halts_call halts_seq

section \<open>Ranked dependencies\<close>

text \<open>The lists whose services \<open>start\<close> starts, stops or locks: their services have a smaller rank.\<close>

definition start_kinds :: "dep_kind set" where
  "start_kinds = {Requisite, Requires, BindsTo, Wants, Upholds, Conflicts, OnFailure, OnSuccess}"

definition ranked :: "(ref \<Rightarrow> nat) \<Rightarrow> sys \<Rightarrow> bool" where
  "ranked r s = (\<forall>p D k x q. map_option deps (def (heap s p)) = Some D \<longrightarrow> k \<in> start_kinds \<longrightarrow>
     (x, Some q) \<in> set (D k) \<longrightarrow> r q < r p)"

text \<open>The locks that the call chain holds.\<close>

definition ranked_at :: "(ref \<Rightarrow> nat) \<Rightarrow> ref list \<Rightarrow> sys \<Rightarrow> bool" where
  "ranked_at r L s = (ranked r s \<and> locks s = L)"

text \<open>A service that is ranked below everything that is locked, and fuel that is enough to start it.\<close>

definition below :: "(ref \<Rightarrow> nat) \<Rightarrow> ref list \<Rightarrow> ref option \<Rightarrow> bool" where
  "below r L i = (case i of None \<Rightarrow> True | Some p \<Rightarrow> \<forall>l\<in>set L. r p < r l)"

definition fuelled :: "(ref \<Rightarrow> nat) \<Rightarrow> nat \<Rightarrow> ref option \<Rightarrow> bool" where
  "fuelled r n i = (case i of None \<Rightarrow> 0 < n | Some p \<Rightarrow> r p + 1 < n)"

definition deps_fuelled :: "(ref \<Rightarrow> nat) \<Rightarrow> nat \<Rightarrow> ref \<Rightarrow> daemondef \<Rightarrow> bool" where
  "deps_fuelled r n p df = (\<forall>k\<in>start_kinds. \<forall>(x, i)\<in>set (deps df k). fuelled r n i \<and> below r [p] i)"

lemma ranked_deps: "fuelled r (Suc n) (Some p) \<Longrightarrow> halts (ranked_at r L) (the_def p) (deps_fuelled r n p)"
  unfolding halts_def the_def_def ranked_at_def ranked_def deps_fuelled_def fuelled_def below_def
  by (fastforce split: option.splits)

lemma below_trans: "below r [p] i \<Longrightarrow> below r L (Some p) \<Longrightarrow> below r (p # L) i"
  by (cases i) (auto simp: below_def)

lemma below_weaken: "below r (p # L) i \<Longrightarrow> below r L i"
  by (cases i) (auto simp: below_def)

lemma below_free: "below r L (Some p) \<Longrightarrow> p \<notin> set L"
  by (auto simp: below_def)

lemma lock_halts: "p \<notin> set L \<Longrightarrow> ends_any (ranked_at r L) (take_lock p)"
  by (simp add: halts_def take_lock_def ranked_at_def)

lemma any_alive_ends: "\<not> stuck (any_alive live cs)"
  by (induction live cs rule: any_alive.induct) auto

lemma wait_exit_ends:
  assumes "\<And>s. I s \<Longrightarrow> I (yield_to E s)"
  shows "I s \<Longrightarrow> \<not> stuck (wait_exit E p tout el s) \<and>
    (\<forall>x s'. wait_exit E p tout el s = Done (x, s') \<longrightarrow> I s')"
  using assms
proof (induction E p tout el s rule: wait_exit.induct)
  case (1 E p tout el s)
  let ?el = "el + poll_pause + int (delay E (ticks s))"
  let ?live = "any_alive (alive E (ticks s)) (cmds (heap (yield_to E s) p))"
  have s: "I (yield_to E s)" using "1.prems" by blast
  show ?case
  proof (cases ?live)
    case (Done b)
    show ?thesis
    proof (cases "b \<and> ?el \<le> tout")
      case True
      with Done have "wait_exit E p tout el s = wait_exit E p tout ?el (yield_to E s)"
        by (simp add: wait_exit_step [of E p tout el s])
      moreover have "\<not> stuck (wait_exit E p tout ?el (yield_to E s)) \<and>
          (\<forall>x s'. wait_exit E p tout ?el (yield_to E s) = Done (x, s') \<longrightarrow> I s')"
        using "1.IH" [OF refl refl refl, of b] Done True s "1.prems"(2) by simp
      ultimately show ?thesis by simp
    next
      case False
      with Done s show ?thesis by (auto simp: wait_exit_step [of E p tout el s])
    qed
  next
    case (Crash c)
    moreover have "\<not> stuck ?live" by (rule any_alive_ends)
    ultimately show ?thesis by (simp add: wait_exit_step [of E p tout el s])
  next
    case Diverge
    moreover have "\<not> stuck ?live" by (rule any_alive_ends)
    ultimately show ?thesis by simp
  qed
qed

text \<open>An environment in which the commands end and the other goroutines keep the ranks and the locks of the chain.\<close>

locale ranked_env =
  fixes E :: env and r :: "ref \<Rightarrow> nat"
  assumes others_ranked: "ranked r s \<Longrightarrow> ranked r (others E n s)"
    and others_locks: "locks (others E n s) = locks s"
    and runs_end: "run_ends E n c"
begin

lemma inv_deps:
  "(\<And>p. map_option deps (def (heap t p)) = map_option deps (def (heap s p))) \<Longrightarrow> locks t = locks s \<Longrightarrow>
   ranked_at r L s \<Longrightarrow> ranked_at r L t"
  by (simp add: ranked_at_def ranked_def)

lemma inv_set:
  "(\<And>d. map_option deps (def (f d)) = map_option deps (def d)) \<Longrightarrow> ends_any (ranked_at r L) (set_daemon p f)"
  unfolding halts_def by (auto intro: inv_deps)

lemma inv_same: "heap t = heap s \<Longrightarrow> locks t = locks s \<Longrightarrow> ranked_at r L s \<Longrightarrow> ranked_at r L t"
  by (rule inv_deps) simp_all

lemma yield_inv: "ranked_at r L s \<Longrightarrow> ranked_at r L (yield_to E s)"
  using others_ranked [of s "ticks s"] others_locks [of "ticks s" s]
  by (simp add: ranked_at_def yield_to_def) (simp add: ranked_def)

lemma run_halts: "ends_any (ranked_at r L) (run_command E p ph spec)"
  unfolding halts_def using runs_end by (auto intro!: yield_inv intro: inv_same)

lemma logger_halts: "ends_any (ranked_at r L) (new_logger E)"
  by (auto simp: halts_def intro: inv_same)

lemma wait_halts: "ends_any (ranked_at r L) (wait_exit E p tout el)"
  using wait_exit_ends [where I = "ranked_at r L", OF yield_inv] by (simp add: halts_def)

lemma yield_halts: "ends_any (ranked_at r L) (go_modify (yield_to E))"
  by (rule halts_modify) (rule yield_inv)

lemmas step_halts = halts_intros run_halts logger_halts wait_halts yield_halts

lemma emit_halts: "ends_any (ranked_at r L) (go_modify (emit ev))" "ends_any (ranked_at r L) (go_modify (signal_cmds p sig))"
    "ends_any (ranked_at r L) (go_modify (\<lambda>s. s\<lparr>events := events s @ evs\<rparr>))"
  by (auto simp: signal_cmds_def intro!: halts_modify intro: inv_same)

lemma stop_halts:
  assumes "below r L i"
  shows "method_halts (ranked_at r L) (stop E pr i)"
proof (cases i)
  case (Some p)
  have "ends_any (ranked_at r L) (stop_run E p)"
    unfolding stop_run_def stop_hook_def stop_kill_def
    by (auto intro!: step_halts emit_halts inv_set split: option.split)
  then have "ends_any (ranked_at r L) (stop_body E pr p)"
    unfolding stop_body_def using below_free [of r L p] assms Some
    by (auto intro!: step_halts lock_halts inv_set split: option.split)
  then show ?thesis by (simp add: stop_def Some halts_fun)
qed (simp add: stop_def method_halts_def)

lemma check_halts: "ends_any (ranked_at r L) (check_abort E p)"
  unfolding check_abort_def
  by (rule halts_seq [OF yield_halts]) (simp add: halts_def)

lemma ids_halts: "ends_any (ranked_at r L) (start_ids E df)"
  unfolding start_ids_def by (auto intro!: step_halts split: option.split)

lemma env_halts: "ends_any (ranked_at r L) (start_env E df)"
  unfolding start_env_def halts_def by (auto split: sum.splits)

lemma spawn_halts: "ends_any (ranked_at r L) (spawn E p spec)"
  unfolding spawn_def halts_def Let_def
  by (auto intro!: yield_inv intro: inv_same)

lemma name_halts: "ends_any (ranked_at r L) (name_of i)"
  unfolding name_of_def halts_def by (auto split: option.splits)

lemmas start_halts = step_halts emit_halts check_halts ids_halts env_halts spawn_halts name_halts inv_set

lemma guard_halts:
  assumes "below r L (Some p)"
  shows "ends_any (ranked_at r L) (start_guard p m)"
proof -
  have warned: "ranked_at r L (start_warned p m df s)" and begun: "ranked_at r L (start_begun p m df s)"
    if "ranked_at r L s" for df s
    by (rule inv_deps [OF _ _ that]; cases "def (heap s p)"; simp add: start_warned_def start_begun_def)+
  have "p \<notin> set (locks s)" if "ranked_at r L s" for s
    using that below_free [OF assms] by (simp add: ranked_at_def)
  then show ?thesis
    unfolding halts_def start_guard_eq
    by (auto split: option.splits intro: warned begun)
qed

lemma cleanup_halts: "below r L (Some p) \<Longrightarrow> ends_any (ranked_at r L) (start_cleanup E p)"
  unfolding start_cleanup_def by (auto intro!: start_halts stop_halts split: option.split)

text \<open>A call chain that takes a lock, calls, and gives it back.\<close>

lemma locked_halts:
  assumes "ends_any (ranked_at r (p # L)) m" "goes_on m"
  shows "ends_any (ranked_at r L) (go_bind (go_modify (\<lambda>s. s\<lparr>locks := p # locks s\<rparr>)) (\<lambda>_.
     go_bind m (\<lambda>_. go_modify (\<lambda>s. s\<lparr>locks := tl (locks s)\<rparr>))))"
  unfolding halts_def
proof (intro allI impI)
  fix s assume s: "ranked_at r L s"
  let ?s = "s\<lparr>locks := p # locks s\<rparr>"
  have "ranked_at r (p # L) ?s" using s by (simp add: ranked_at_def ranked_def)
  then have m: "\<not> stuck (m ?s)" "\<And>x t. m ?s = Done (x, t) \<Longrightarrow> ranked_at r (p # L) t"
    using assms(1) unfolding halts_def by blast+
  show "\<not> stuck (go_bind (go_modify (\<lambda>s. s\<lparr>locks := p # locks s\<rparr>)) (\<lambda>_.
       go_bind m (\<lambda>_. go_modify (\<lambda>s. s\<lparr>locks := tl (locks s)\<rparr>))) s) \<and>
    (\<forall>x s'. go_bind (go_modify (\<lambda>s. s\<lparr>locks := p # locks s\<rparr>)) (\<lambda>_.
       go_bind m (\<lambda>_. go_modify (\<lambda>s. s\<lparr>locks := tl (locks s)\<rparr>))) s = Done (x, s') \<longrightarrow>
       ranked_at r L s' \<and> (\<forall>a. x = Next a \<longrightarrow> True))"
  proof (cases "m ?s")
    case (Done y)
    obtain x t where y: "y = (x, t)" by force
    moreover obtain a where "x = Next a" using assms(2) Done y unfolding goes_on_def by blast
    ultimately have run: "m ?s = Done (Next a, t)" using Done by simp
    have "ranked_at r L (t\<lparr>locks := tl (locks t)\<rparr>)"
      using m(2) [OF run] by (simp add: ranked_at_def ranked_def)
    then show ?thesis by (simp add: go_bind_next [where m = m, OF run])
  next
    case (Crash c)
    with m(1) show ?thesis by (simp add: go_bind_crash)
  qed (use m(1) in simp)
qed

end

section \<open>A service with fuel for its dependencies\<close>

locale ranked_start = ranked_env +
  fixes n :: nat and p :: ref and rec :: starter and L :: "ref list"
  assumes fuel: "fuelled r (Suc n) (Some p)"
    and free: "below r L (Some p)"
    and rec_halts: "fuelled r n i \<Longrightarrow> below r M i \<Longrightarrow> method_halts (ranked_at r M) (rec i m)"
begin

lemma fuelled_deps:
  assumes "deps_fuelled r n p df" "k \<in> start_kinds" "d \<in> set (deps df k)"
  shows "below r (p # L) (snd d)" "method_halts (ranked_at r (p # L)) (rec (snd d) False)"
    "method_halts (ranked_at r L) (rec (snd d) False)"
proof -
  have d: "fuelled r n (snd d)" "below r [p] (snd d)" using assms unfolding deps_fuelled_def by force+
  show b: "below r (p # L) (snd d)" using below_trans [OF d(2) free] .
  show "method_halts (ranked_at r (p # L)) (rec (snd d) False)" using rec_halts [OF d(1) b] .
  show "method_halts (ranked_at r L) (rec (snd d) False)" using rec_halts [OF d(1) below_weaken [OF b]] .
qed

lemma linked_halts:
  assumes "k \<in> start_kinds"
  shows "ends_any (ranked_at r L) (run_linked rec k p)"
  unfolding run_linked_def
proof (rule halts_bind [OF ranked_deps [OF fuel]])
  fix df assume df: "deps_fuelled r n p df"
  have "ends_any (ranked_at r (p # L)) (go_for (\<lambda>(_, i). go_bind (go_call (rec i False)) (\<lambda>_. go_next ())) (deps df k))"
  proof (rule halts_for)
    fix d assume "d \<in> set (deps df k)"
    then have "method_halts (ranked_at r (p # L)) (rec (snd d) False)" by (rule fuelled_deps(2) [OF df assms])
    then show "ends_any (ranked_at r (p # L)) (case d of (_, i) \<Rightarrow> go_bind (go_call (rec i False)) (\<lambda>_. go_next ()))"
      by (cases d) (auto intro!: halts_seq halts_call halts_pure)
  qed
  moreover have "goes_on (go_for (\<lambda>(_, i). go_bind (go_call (rec i False)) (\<lambda>_. go_next ())) (deps df k))"
    by (rule goes_on_for) (auto intro!: goes_on_bind goes_on_pure)
  ultimately show "ends_any (ranked_at r L) (go_bind (go_modify (\<lambda>s. s\<lparr>locks := p # locks s\<rparr>)) (\<lambda>_.
     go_bind (go_for (\<lambda>(_, i). go_bind (go_call (rec i False)) (\<lambda>_. go_next ())) (deps df k)) (\<lambda>_.
     go_modify (\<lambda>s. s\<lparr>locks := tl (locks s)\<rparr>))))"
    by (rule locked_halts)
qed

lemma links_halt: "ends_any (ranked_at r L) (run_linked rec OnFailure p)" "ends_any (ranked_at r L) (run_linked rec OnSuccess p)"
  by (rule linked_halts, simp add: start_kinds_def)+

lemma give_up_halts: "ends_any (ranked_at r L) (give_up rec p e x)"
  unfolding give_up_def by (auto intro!: start_halts links_halt)

lemma phase_failed_halts: "ends_any (ranked_at r L) (phase_failed E rec p ph l e)"
  unfolding phase_failed_def by (auto intro!: start_halts give_up_halts stop_halts [OF free])

lemma requisite_halts: "below r (p # L) (snd d) \<Longrightarrow> ends_any (ranked_at r L) (require_running E rec p d)"
  unfolding require_running_def
  by (auto intro!: start_halts lock_halts give_up_halts simp: below_def split: option.split)

lemma must_halts:
  "(\<And>m. method_halts (ranked_at r L) (act (snd d))) \<Longrightarrow> ends_any (ranked_at r L) (must_succeed E rec act p d)"
  unfolding must_succeed_def by (auto intro!: start_halts give_up_halts split: option.split)

lemma may_halts: "method_halts (ranked_at r L) (rec (snd d) False) \<Longrightarrow> ends_any (ranked_at r L) (may_fail E rec p d)"
  unfolding may_fail_def by (auto intro!: start_halts)

lemma deps_halt: "ends_any (ranked_at r L) (start_deps E rec p)"
proof -
  have must: "ends_any (ranked_at r L) (go_for (must_succeed E rec (\<lambda>i. rec i False) p) (deps df k))"
    and may: "ends_any (ranked_at r L) (go_for (may_fail E rec p) (deps df k))"
    and requisite: "ends_any (ranked_at r L) (go_for (require_running E rec p) (deps df k))"
    and conflict: "ends_any (ranked_at r L) (go_for (must_succeed E rec (stop E True) p) (deps df k))"
    if "deps_fuelled r n p df" "k \<in> start_kinds" for df k
    using fuelled_deps [OF that]
    by (auto intro!: halts_for must_halts may_halts requisite_halts stop_halts dest: below_weaken)
  show ?thesis
    unfolding start_deps_def
    by (intro halts_bind [OF ranked_deps [OF fuel]] halts_seq must may requisite conflict)
      (simp_all add: start_kinds_def)
qed

lemma condition_halts: "ends_any (ranked_at r L) (condition_line E p denv l)"
  unfolding condition_line_def by (auto intro!: start_halts split: option.split)

lemma run_line_halts: "ends_any (ranked_at r L) (run_line E rec p ph denv l)"
  unfolding run_line_def Let_def by (auto intro!: start_halts phase_failed_halts split: option.split)

lemma spawn_lines_halt: "ends_any (ranked_at r L) (spawn_lines E rec p denv ids ls)"
proof (induction ls)
  case (Cons l ls)
  have "ends_any (ranked_at r L) (spawn_line E rec p denv ids l)"
    unfolding spawn_line_def Let_def by (auto intro!: start_halts phase_failed_halts)
  with Cons show ?case by (auto intro!: start_halts)
qed (simp add: halts_pure)

lemma body_halts: "ends_any (ranked_at r L) (start_body E rec p m)"
proof -
  have logger: "ends_any (ranked_at r L) (start_logger E p)"
    unfolding start_logger_def by (auto intro!: start_halts)
  have finish: "ends_any (ranked_at r L) (start_finish E rec p cs)" for cs
    unfolding start_finish_def by (auto intro!: start_halts links_halt)
  have commands: "ends_any (ranked_at r L) (start_commands E rec p denv ids)" for denv ids
    unfolding start_commands_def by (intro start_halts run_line_halts spawn_lines_halt finish)
  show ?thesis
    unfolding start_body_def
    by (intro start_halts guard_halts [OF free] cleanup_halts [OF free] logger condition_halts deps_halt commands)
qed

end

lemma start_halts_ranked:
  assumes "ranked_env E r"
  shows "fuelled r n i \<Longrightarrow> below r L i \<Longrightarrow> method_halts (ranked_at r L) (start n E i m)"
proof (induction n arbitrary: i m L)
  case 0
  then show ?case by (cases i) (simp_all add: fuelled_def)
next
  case (Suc n)
  show ?case
  proof (cases i)
    case (Some p)
    have "ranked_start E r n p (start n E) L"
      using assms Suc Some by (simp add: ranked_start_def ranked_start_axioms_def)
    from ranked_start.body_halts [OF this, of m] have "method_halts (ranked_at r L) (go_fun (start_body E (start n E) p m))"
      by (rule halts_fun)
    then show ?thesis using Some by (simp add: method_halts_def)
  qed (simp add: method_halts_def)
qed

text \<open>
  C2. A start ends, whatever fails on the way, if the services can be ranked so that everything a
  service starts, stops or waits for (its requirements, requisites, wants and conflicts, and the units
  it starts on success and on failure) has a smaller rank, and what the caller holds locked a greater
  one: it returns with the locks as before, or panics. It neither recurses for ever nor waits for a
  lock of its own chain, with fuel for a rank more. The commands that are run must end and be reaped,
  and the other goroutines keep the ranks.
\<close>

theorem start_terminates:
  assumes "ranked r s" "\<And>s t. ranked r s \<Longrightarrow> ranked r (others E t s)" "\<And>s t. locks (others E t s) = locks s"
    and "\<And>t c. run_ends E t c" "\<And>l. l \<in> set (locks s) \<Longrightarrow> r p < r l" "r p + 1 < n"
  shows "(\<exists>e s'. start n E (Some p) m s = Done (e, s') \<and> locks s' = locks s) \<or>
    start n E (Some p) m s \<in> {Crash NilDeref, Crash IndexRange}"
proof -
  have "ranked_env E r" using assms(2-4) by unfold_locales
  then have "method_halts (ranked_at r (locks s)) (start n E (Some p) m)"
    by (rule start_halts_ranked) (use assms(5,6) in \<open>simp_all add: fuelled_def below_def\<close>)
  moreover have "ranked_at r (locks s) s" using assms(1) by (simp add: ranked_at_def)
  ultimately have s: "\<not> stuck (start n E (Some p) m s)"
    and after: "start n E (Some p) m s = Done (e, s') \<Longrightarrow> ranked_at r (locks s) s'" for e s'
    unfolding method_halts_def by blast+
  show ?thesis
  proof (cases "start n E (Some p) m s")
    case (Done y)
    obtain e s' where y: "y = (e, s')" by force
    with after Done have "locks s' = locks s" by (simp add: ranked_at_def)
    with Done y show ?thesis by blast
  next
    case (Crash c)
    with s show ?thesis by (cases c) simp_all
  qed (use s in simp)
qed

interpretation calm_ranks: ranked_env "calm_env n" r for n r
  by unfold_locales (auto simp: ranked_def calm_env_def)

definition chain_rank :: "ref \<Rightarrow> nat" where "chain_rank p = 1 - p"

lemma start_terminates_witness:
  "(\<exists>e s'. start 3 (calm_env 0) (Some 0) True (resting [put_dep Requires ''b'' (Some 1) empty_def, empty_def]) = Done (e, s') \<and>
      locks s' = []) \<or>
   start 3 (calm_env 0) (Some 0) True (resting [put_dep Requires ''b'' (Some 1) empty_def, empty_def]) \<in>
      {Crash NilDeref, Crash IndexRange}"
proof -
  let ?s = "resting [put_dep Requires ''b'' (Some 1) empty_def, empty_def]"
  have "ranked chain_rank ?s"
    by (auto simp: ranked_def resting_def init_sys_def new_daemon_def put_dep_def empty_def_def chain_rank_def
        less_Suc_eq split: if_splits)
  moreover have "locks ?s = []" by (simp add: resting_def init_sys_def)
  ultimately show ?thesis
    using start_terminates [of chain_rank ?s "calm_env 0" 0 3 True]
    by (simp add: calm_env_def chain_rank_def)
qed

end
