(* ===== verification/DaemonFiles.thy ===== *)
theory DaemonFiles
  imports StartRuns
begin

text \<open>
  The methods of \<open>systemd/daemons/daemon.go\<close> that work on files: enabling, masking, instances, and the
  two that report, \<open>Status\<close> and \<open>Detail\<close>. \<open>path.Join\<close> is used on a directory without a final slash
  and one name without a slash, where it is \<open>path_join\<close>.
\<close>

section \<open>Operations on files\<close>

text \<open>\<open>os.MkdirAll\<close>: the prefixes of the path, until one exists that is not a directory.\<close>

fun dir_prefixes :: "string \<Rightarrow> string list \<Rightarrow> string list" where
  "dir_prefixes base [] = []"
| "dir_prefixes base (c # cs) = (base @ ''/'' @ c) # dir_prefixes (base @ ''/'' @ c) cs"

definition is_dir :: "filesys \<Rightarrow> string \<Rightarrow> bool" where
  "is_dir f p = (case fs_resolve f p of Some (_, Directory) \<Rightarrow> True | _ \<Rightarrow> False)"

fun make_dirs :: "string list \<Rightarrow> filesys \<Rightarrow> filesys" where
  "make_dirs [] f = f"
| "make_dirs (p # ps) f =
     (if is_dir f p then make_dirs ps f
      else if fs_lstat f p = None then make_dirs ps (fs_mkdir p f) else f)"

definition mkdir_all :: "string \<Rightarrow> filesys \<Rightarrow> filesys" where
  "mkdir_all p f = make_dirs (dir_prefixes [] (split_at (CHR ''/'') (drop 1 p))) f"

text \<open>\<open>os.WriteFile\<close>: the name at the end of the links is created in an existing directory or
  truncated; a directory cannot be written.\<close>

fun write_target :: "nat \<Rightarrow> filesys \<Rightarrow> string \<Rightarrow> string option" where
  "write_target 0 f p = None"
| "write_target (Suc n) f p =
     (case fs_lstat f p of
        None \<Rightarrow> Some p
      | Some (RegFile _) \<Rightarrow> Some p
      | Some Directory \<Rightarrow> None
      | Some (Symlink t) \<Rightarrow> write_target n f (if has_prefix t ''/'' then t else dir_part p @ t))"

definition parent_exists :: "filesys \<Rightarrow> string \<Rightarrow> bool" where
  "parent_exists f p = (let d = trim_right (dir_part p) ''/'' in d = [] \<or> is_dir f d)"

definition fs_write_file :: "string \<Rightarrow> string \<Rightarrow> filesys \<Rightarrow> filesys option" where
  "fs_write_file p c f =
     (case write_target 40 f p of
        Some q \<Rightarrow> if parent_exists f q then Some (fs_write q c f) else None
      | None \<Rightarrow> None)"

text \<open>\<open>os.Remove\<close>: of a file, a link or an empty directory.\<close>

definition fs_remove_one :: "string \<Rightarrow> filesys \<Rightarrow> filesys option" where
  "fs_remove_one p f =
     (case fs_lstat f p of
        None \<Rightarrow> None
      | Some Directory \<Rightarrow> if \<exists>(q, _)\<in>set f. has_prefix q (p @ ''/'') then None else Some (fs_remove p f)
      | Some _ \<Rightarrow> Some (fs_remove p f))"

section \<open>Enabling\<close>

definition service_dest :: "string \<Rightarrow> string" where
  "service_dest name = path_join wants_dir (name @ ''.service'')"

definition set_fs :: "filesys \<Rightarrow> unit go" where
  "set_fs f = go_modify (\<lambda>s. s\<lparr>fs := f\<rparr>)"

text \<open>A file operation whose error is returned.\<close>

definition try_fs :: "(filesys \<Rightarrow> filesys option) \<Rightarrow> unit go" where
  "try_fs op = go_bind (go_get fs) (\<lambda>f.
     case op f of None \<Rightarrow> go_return (Some FileError) | Some f' \<Rightarrow> set_fs f')"

definition is_enabled :: "ref \<Rightarrow> bool go" where
  "is_enabled p =
     go_bind (take_lock p) (\<lambda>_.
     go_get (\<lambda>s. def (heap s p) \<noteq> None \<and> fs_exists (fs s) (service_dest (dname (heap s p)))))"

definition enable_body :: "ref \<Rightarrow> unit go" where
  "enable_body p =
     go_bind (take_lock p) (\<lambda>_.
     go_bind (go_modify (\<lambda>s. if fs_exists (fs s) wants_dir then s else s\<lparr>fs := mkdir_all wants_dir (fs s)\<rparr>)) (\<lambda>_.
     go_bind (go_get (\<lambda>s. heap s p)) (\<lambda>dm.
     if def dm = None then go_return (Some ServiceRemoved)
     else if paths dm = [] then go_return (Some PathNotFound)
     else
       go_bind (go_get fs) (\<lambda>f.
       if fs_exists f (service_dest (dname dm)) then go_next ()
       else try_fs (fs_write_file (service_dest (dname dm)) ''OK'')))))"

definition enable :: "ref \<Rightarrow> go_method" where
  "enable p = go_fun (enable_body p)"

definition disable_body :: "ref \<Rightarrow> unit go" where
  "disable_body p =
     go_bind (take_lock p) (\<lambda>_.
     go_bind (go_get (\<lambda>s. (fs s, service_dest (dname (heap s p))))) (\<lambda>(f, dest).
     if fs_exists f dest then try_fs (fs_remove_one dest) else go_next ()))"

definition disable :: "ref \<Rightarrow> go_method" where
  "disable p = go_fun (disable_body p)"

section \<open>Masking\<close>

definition mask_path :: "string \<Rightarrow> string" where
  "mask_path name = path_join etc_units (name @ ''.service'')"

text \<open>The link is made at the relative name \<open>target\<close>, in the working directory of the process.\<close>

definition mask_body :: "string \<Rightarrow> ref \<Rightarrow> unit go" where
  "mask_body cwd p =
     go_bind (take_lock p) (\<lambda>_.
     go_bind (go_get (\<lambda>s. (fs s, mask_path (dname (heap s p))))) (\<lambda>(f, target).
     if fs_exists f target then go_return (Some (MaskExists target))
     else go_bind (try_fs (fs_symlink ''/dev/null'' (path_join cwd ''target''))) (\<lambda>_.
          set_daemon p (\<lambda>d. d\<lparr>is_masked := True\<rparr>))))"

definition mask :: "string \<Rightarrow> ref \<Rightarrow> go_method" where
  "mask cwd p = go_fun (mask_body cwd p)"

definition unmask_body :: "ref \<Rightarrow> unit go" where
  "unmask_body p =
     go_bind (take_lock p) (\<lambda>_.
     go_bind (go_get (\<lambda>s. (fs s, mask_path (dname (heap s p))))) (\<lambda>(f, target).
     if fs_readlink f target = Some ''/dev/null''
     then go_bind (try_fs (fs_remove_one target)) (\<lambda>_. set_daemon p (\<lambda>d. d\<lparr>is_masked := False\<rparr>))
     else set_daemon p (\<lambda>d. d\<lparr>is_masked := False\<rparr>)))"

definition unmask :: "ref \<Rightarrow> go_method" where
  "unmask p = go_fun (unmask_body p)"

section \<open>Instances\<close>

definition instance_path :: "string \<Rightarrow> string \<Rightarrow> string" where
  "instance_path name p = dir_part p @ trim_suffix (base_part p) ''.service'' @ name @ ''.service''"

definition create_instance_body :: "ref \<Rightarrow> string \<Rightarrow> unit go" where
  "create_instance_body p name =
     go_bind (go_get (\<lambda>s. paths (heap s p))) (\<lambda>ps.
     if \<exists>q\<in>set ps. \<not> str_contains q ''@'' then go_return (Some NotAnInstance)
     else go_for (\<lambda>q. try_fs (fs_link q (instance_path name q))) ps)"

definition create_instance :: "ref \<Rightarrow> string \<Rightarrow> go_method" where
  "create_instance p name = go_fun (create_instance_body p name)"

definition delete_service :: "ref \<Rightarrow> go_method" where
  "delete_service p =
     go_fun (go_bind (go_get (\<lambda>s. paths (heap s p))) (go_for (\<lambda>q. go_modify (\<lambda>s. s\<lparr>fs := fs_remove_all q (fs s)\<rparr>))))"

section \<open>Reports\<close>

text \<open>The process numbers of the commands; \<open>cmd.Process.Pid\<close> of one without a process panics.\<close>

fun pid_texts :: "cmd list \<Rightarrow> string list option" where
  "pid_texts [] = Some []"
| "pid_texts (None # cs) = None"
| "pid_texts (Some pid # cs) = map_option (\<lambda>ts. itoa pid # ts) (pid_texts cs)"

definition state_text :: "daemon \<Rightarrow> string option" where
  "state_text d =
     (case dstate d of
        StateRestarting \<Rightarrow> Some ''Restarting''
      | StateRunning \<Rightarrow>
          map_option (\<lambda>ts. ''Running ('' @ join_with '', '' (ts @ map itoa (pids d)) @ '')'') (pid_texts (cmds d))
      | StateStarting \<Rightarrow> Some ''Starting''
      | StateStopped \<Rightarrow> Some ''Stopped''
      | StateStopping \<Rightarrow> Some ''Stopping'')"

definition status :: "ref \<Rightarrow> (string \<times> derr option) go" where
  "status p =
     go_bind (take_lock p) (\<lambda>_.
     go_bind (go_get (\<lambda>s. heap s p)) (\<lambda>d.
     case state_text d of
       None \<Rightarrow> (\<lambda>_. Crash NilDeref)
     | Some t \<Rightarrow> go_next (''State: '' @ t @ (if is_masked d then '' (masked)'' else []), state_error d)))"

text \<open>\<open>marshal\<close> is \<open>yaml.Marshal\<close>, of the YAML library.\<close>

definition detail :: "(daemondef option \<Rightarrow> string) \<Rightarrow> ref \<Rightarrow> string go" where
  "detail marshal p =
     go_bind (take_lock p) (\<lambda>_.
     go_get (\<lambda>s. marshal (def (heap s p)) @ ''Masked: '' @
       (if is_masked (heap s p) then ''true'' else ''false'') @ [CHR 0x0A]))"

section \<open>What enabling does\<close>

lemma try_fs_Done:
  "try_fs op s = Done (x, s') \<longleftrightarrow>
     (case op (fs s) of None \<Rightarrow> x = Return (Some FileError) \<and> s' = s | Some f \<Rightarrow> x = Next () \<and> s' = s\<lparr>fs := f\<rparr>)"
  by (auto simp: try_fs_def set_fs_def split: option.splits)

lemma resolve_reg: "fs_lstat f p = Some (RegFile c) \<Longrightarrow> fs_exists f p"
  by (simp add: fs_exists_def fs_resolve_def eval_nat_numeral)

lemma resolve_none: "fs_lstat f p = None \<Longrightarrow> \<not> fs_exists f p"
  by (simp add: fs_exists_def fs_resolve_def eval_nat_numeral)

lemma write_then_exists: 
  assumes "fs_write_file p c f = Some f'"
  shows "fs_exists f' p"
proof -
  obtain q where q: "write_target 40 f p = Some q" "f' = fs_write q c f"
    using assms by (auto simp: fs_write_file_def split: option.splits if_splits)
  have "write_target n f p = Some q \<Longrightarrow> fs_follow n (fs_write q c f) p \<noteq> None" for n
    by (induction n f p rule: write_target.induct)
      (auto simp: fs_write_def fs_lstat_def gm.get_put split: option.splits node.splits if_splits)
  with q show ?thesis by (simp add: fs_exists_def fs_resolve_def)
qed

lemma base_part_join: "CHR ''/'' \<notin> set n \<Longrightarrow> base_part (path_join d n) = n"
  proof -
  assume "CHR ''/'' \<notin> set n"
  then have "takeWhile (\<lambda>c. c \<noteq> CHR ''/'') (rev n @ CHR ''/'' # rev d) = rev n"
    by (intro takeWhile_append_stop) auto
  then show ?thesis by (simp add: base_part_def path_join_def)
qed

lemma child_name_join:
  assumes "CHR ''/'' \<notin> set n" "n \<noteq> []"
  shows "child_name d (path_join d n) = Some n"
  using assms by (simp add: child_name_def base_part_join) (simp add: path_join_def has_prefix_def)

lemma child_name_inj: "child_name d q = Some n \<Longrightarrow> q = path_join d n"
  by (auto simp: child_name_def path_join_def has_prefix_iff split: if_splits)

lemma map_filter_iff: "y \<in> set (List.map_filter g xs) \<longleftrightarrow> (\<exists>x\<in>set xs. g x = Some y)"
  by (induction xs) (auto simp: map_filter_simps split: option.splits)

text \<open>The entries of a directory.\<close>

lemma readdir_iff:
  assumes "fs_lstat f d = Some Directory" "gm_ok f"
  obtains es where "fs_readdir f d = Some es"
    "\<And>n b. (n, b) \<in> set es \<longleftrightarrow> child_name d (path_join d n) = Some n \<and>
       (\<exists>nd. fs_lstat f (path_join d n) = Some nd \<and> b = is_dir_node nd)"
proof -
  let ?g = "\<lambda>(q, nd). map_option (\<lambda>n. (n, is_dir_node nd)) (child_name d q)"
  have "fs_resolve f d = Some (d, Directory)"
    using assms(1) by (simp add: fs_resolve_def eval_nat_numeral)
  then have r: "fs_readdir f d = Some (sort_key fst (List.map_filter ?g f))"
    by (simp add: fs_readdir_def)
  have "(n, b) \<in> set (List.map_filter ?g f) \<longleftrightarrow> child_name d (path_join d n) = Some n \<and>
       (\<exists>nd. fs_lstat f (path_join d n) = Some nd \<and> b = is_dir_node nd)" for n b
  proof
    assume "(n, b) \<in> set (List.map_filter ?g f)"
    then obtain q nd where q: "(q, nd) \<in> set f" "child_name d q = Some n" "b = is_dir_node nd"
      by (auto simp: map_filter_iff)
    moreover have "q = path_join d n" using q(2) by (rule child_name_inj)
    ultimately show "child_name d (path_join d n) = Some n \<and>
       (\<exists>nd. fs_lstat f (path_join d n) = Some nd \<and> b = is_dir_node nd)"
      using assms(2) by (auto simp: fs_lstat_def)
  next
    assume "child_name d (path_join d n) = Some n \<and>
       (\<exists>nd. fs_lstat f (path_join d n) = Some nd \<and> b = is_dir_node nd)"
    then obtain nd where nd: "(path_join d n, nd) \<in> set f" "child_name d (path_join d n) = Some n" "b = is_dir_node nd"
      by (auto simp: fs_lstat_def dest: map_of_SomeD)
    then have "?g (path_join d n, nd) = Some (n, b)" by simp
    with nd(1) show "(n, b) \<in> set (List.map_filter ?g f)" unfolding map_filter_iff by blast
  qed
  with r that show ?thesis by simp
qed

text \<open>The state in which \<open>Enable\<close> looks at the service.\<close>

definition enabling :: "sys \<Rightarrow> sys" where
  "enabling s = (if fs_exists (fs s) wants_dir then s else s\<lparr>fs := mkdir_all wants_dir (fs s)\<rparr>)"

lemma enabling_simps [simp]: "heap (enabling s) = heap s" "locks (enabling s) = locks s"
  by (simp_all add: enabling_def)

lemma try_fs_eq:
  "try_fs op s = (case op (fs s) of None \<Rightarrow> Done (Return (Some FileError), s) | Some f \<Rightarrow> Done (Next (), s\<lparr>fs := f\<rparr>))"
  by (simp add: try_fs_def set_fs_def split: option.split)

lemma enable_eq:
  assumes "p \<notin> set (locks s)"
  shows "enable p s =
     (let s1 = enabling s; dest = service_dest (dname (heap s p)) in
      if def (heap s p) = None then Done (Some ServiceRemoved, s1)
      else if paths (heap s p) = [] then Done (Some PathNotFound, s1)
      else if fs_exists (fs s1) dest then Done (None, s1)
      else case fs_write_file dest ''OK'' (fs s1) of
        None \<Rightarrow> Done (Some FileError, s1) | Some f \<Rightarrow> Done (None, s1\<lparr>fs := f\<rparr>))"
  unfolding enable_def enable_body_def enabling_def [symmetric] go_fun_def
  using assms by (simp add: go_bind_lock try_fs_eq Let_def split: option.split)

lemma disable_eq:
  assumes "p \<notin> set (locks s)"
  shows "disable p s =
     (let dest = service_dest (dname (heap s p)) in
      if \<not> fs_exists (fs s) dest then Done (None, s)
      else case fs_remove_one dest (fs s) of
        None \<Rightarrow> Done (Some FileError, s) | Some f \<Rightarrow> Done (None, s\<lparr>fs := f\<rparr>))"
  unfolding disable_def disable_body_def go_fun_def
  using assms by (simp add: go_bind_lock try_fs_eq Let_def split: option.split)

lemma is_enabled_eq:
  "p \<notin> set (locks s) \<Longrightarrow> is_enabled p s =
     Done (Next (def (heap s p) \<noteq> None \<and> fs_exists (fs s) (service_dest (dname (heap s p)))), s)"
  by (simp add: is_enabled_def go_bind_lock)

lemma enable_unlocked: "enable p s = Done r \<Longrightarrow> p \<notin> set (locks s)"
  by (auto simp: enable_def enable_body_def go_fun_def go_bind_def take_lock_def)

lemma make_dirs_ok: "gm_ok f \<Longrightarrow> gm_ok (make_dirs ps f)"
  by (induction ps f rule: make_dirs.induct) (auto simp: fs_mkdir_def distinct_update)

lemma enable_Done:
  assumes "enable p s = Done (None, s')"
  shows "def (heap s p) \<noteq> None" "heap s' = heap s" "locks s' = locks s"
    "fs_exists (fs s') (service_dest (dname (heap s p)))" "gm_ok (fs s) \<Longrightarrow> gm_ok (fs s')"
proof -
  have "gm_ok (fs s) \<Longrightarrow> gm_ok (fs (enabling s))"
    by (simp add: enabling_def mkdir_all_def make_dirs_ok)
  moreover have "gm_ok f \<Longrightarrow> fs_write_file d c f = Some f' \<Longrightarrow> gm_ok f'" for f d c f'
    by (auto simp: fs_write_file_def fs_write_def distinct_update split: option.splits if_splits)
  ultimately show "def (heap s p) \<noteq> None" "heap s' = heap s" "locks s' = locks s"
    "fs_exists (fs s') (service_dest (dname (heap s p)))" "gm_ok (fs s) \<Longrightarrow> gm_ok (fs s')"
    using assms enable_eq [OF enable_unlocked [OF assms]]
    by (auto simp: Let_def write_then_exists split: if_splits option.splits)
qed

text \<open>
  C10. Enabling and disabling a service. After \<open>Enable\<close> returned no error the service is enabled and
  its file is one that the boot starts; \<open>Disable\<close> then succeeds, the service is not enabled and the
  boot finds no file of it.
\<close>

theorem enable_disable:
  assumes "enable p s = Done (None, s1)" "gm_ok (fs s)" "fs_lstat (fs s1) wants_dir = Some Directory"
    and "fs_lstat (fs s1) (service_dest (dname (heap s p))) \<noteq> Some Directory" "CHR ''/'' \<notin> set (dname (heap s p))"
  shows "is_enabled p s1 = Done (Next True, s1) \<and>
    (\<exists>es. fs_readdir (fs s1) wants_dir = Some es \<and> (dname (heap s p) @ ''.service'', False) \<in> set es) \<and>
    (\<exists>s2. disable p s1 = Done (None, s2) \<and> is_enabled p s2 = Done (Next False, s2) \<and>
       (\<exists>es. fs_readdir (fs s2) wants_dir = Some es \<and> dname (heap s p) @ ''.service'' \<notin> fst ` set es))"
proof -
  let ?n = "dname (heap s p) @ ''.service''"
  let ?dest = "service_dest (dname (heap s p))"
  note e = enable_Done [OF assms(1)] and unl = enable_unlocked [OF assms(1)]
  have dest: "?dest = path_join wants_dir ?n" by (simp add: service_dest_def)
  obtain nd where nd: "fs_lstat (fs s1) ?dest = Some nd" "nd \<noteq> Directory"
    using e(4) resolve_none assms(4) by blast
  have ok1: "gm_ok (fs s1)" using e(5) assms(2) by simp
  let ?f = "fs_remove ?dest (fs s1)"
  have ok2: "gm_ok ?f" using ok1 by (simp add: fs_remove_def distinct_delete)
  have lstat2: "fs_lstat ?f q = (if q = ?dest then None else fs_lstat (fs s1) q)" for q
    using ok1 by (simp add: fs_remove_def fs_lstat_def gm.get_del)
  have child: "child_name wants_dir ?dest = Some ?n"
    unfolding dest using assms(5) by (intro child_name_join) simp_all
  have "wants_dir \<noteq> ?dest" by (simp add: dest path_join_def)
  then have d2: "fs_lstat ?f wants_dir = Some Directory" using lstat2 assms(3) by simp
  have "is_dir_node nd = False" using nd(2) by (cases nd) (simp_all add: is_dir_node_def)
  then obtain es1 where es1: "fs_readdir (fs s1) wants_dir = Some es1" "(?n, False) \<in> set es1"
    using readdir_iff [OF assms(3) ok1] nd(1) child unfolding dest by metis
  obtain es2 where es2: "fs_readdir ?f wants_dir = Some es2"
    "\<And>n b. (n, b) \<in> set es2 \<Longrightarrow> \<exists>nd. fs_lstat ?f (path_join wants_dir n) = Some nd"
    using readdir_iff [OF d2 ok2] by metis
  have es2': "?n \<notin> fst ` set es2"
  proof
    assume "?n \<in> fst ` set es2"
    then obtain b where "(?n, b) \<in> set es2" by force
    then show False using es2(2) lstat2 dest by fastforce
  qed
  have "fs_remove_one ?dest (fs s1) = Some ?f"
    using nd by (cases nd) (simp_all add: fs_remove_one_def)
  then have "disable p s1 = Done (None, s1\<lparr>fs := ?f\<rparr>)"
    using disable_eq [of p s1] unl e by simp
  moreover have "\<not> fs_exists ?f ?dest" using lstat2 by (intro resolve_none) simp
  ultimately show ?thesis
    using es1 es2(1) es2' e unl by (auto simp: is_enabled_eq)
qed

text \<open>A process that runs in \<open>/\<close> with one service \<open>a\<close> and no files.\<close>

definition bare_sys :: sys where "bare_sys = resting [empty_def]"

theorem enable_disable_witness:
  "\<exists>s1 s2. enable 0 bare_sys = Done (None, s1) \<and> disable 0 s1 = Done (None, s2) \<and>
     is_enabled 0 s1 = Done (Next True, s1) \<and> is_enabled 0 s2 = Done (Next False, s2)"
proof -
  have "case enable 0 bare_sys of Done (None, s1) \<Rightarrow> fs_lstat (fs s1) wants_dir = Some Directory \<and>
      fs_lstat (fs s1) (service_dest (dname (heap bare_sys 0))) \<noteq> Some Directory | _ \<Rightarrow> False"
    by code_simp
  then obtain s1 where s1: "enable 0 bare_sys = Done (None, s1)" "fs_lstat (fs s1) wants_dir = Some Directory"
      "fs_lstat (fs s1) (service_dest (dname (heap bare_sys 0))) \<noteq> Some Directory"
    by (auto split: outcome.splits option.splits prod.splits)
  have "gm_ok (fs bare_sys)" "CHR ''/'' \<notin> set (dname (heap bare_sys 0))"
    by (simp_all add: bare_sys_def resting_def init_sys_def new_daemon_def)
  with enable_disable [OF s1(1) _ s1(2,3)] s1(1) show ?thesis by blast
qed

section \<open>What masking does\<close>

lemma mask_eq:
  assumes "p \<notin> set (locks s)"
  shows "mask cwd p s =
     (let target = mask_path (dname (heap s p)) in
      if fs_exists (fs s) target then Done (Some (MaskExists target), s)
      else case fs_symlink ''/dev/null'' (path_join cwd ''target'') (fs s) of
        None \<Rightarrow> Done (Some FileError, s)
      | Some f \<Rightarrow> Done (None, upd_daemon p (\<lambda>d. d\<lparr>is_masked := True\<rparr>) (s\<lparr>fs := f\<rparr>)))"
  unfolding mask_def mask_body_def go_fun_def
  using assms by (simp add: go_bind_lock try_fs_eq Let_def go_bind_def [of "try_fs _"] split: option.split)

lemma mask_unlocked: "mask cwd p s = Done r \<Longrightarrow> p \<notin> set (locks s)"
  by (auto simp: mask_def mask_body_def go_fun_def go_bind_def take_lock_def)

text \<open>
  C38. \<open>Mask\<close> puts its link at the name \<open>target\<close> of the working directory. The file that would mask the
  service for the next reload is as before, and no other service can be masked any more: the link
  is in the way.
\<close>

theorem mask_is_misplaced:
  assumes "mask cwd p s = Done (None, s')" "path_join cwd ''target'' \<noteq> mask_path (dname (heap s p))"
  shows "is_masked (heap s' p) \<and>
    fs_lstat (fs s') (mask_path (dname (heap s p))) = fs_lstat (fs s) (mask_path (dname (heap s p))) \<and>
    fs_lstat (fs s') (path_join cwd ''target'') = Some (Symlink ''/dev/null'') \<and>
    (\<forall>q. q \<notin> set (locks s) \<longrightarrow> (\<exists>e. mask cwd q s' = Done (Some e, s')))"
proof -
  let ?t = "path_join cwd ''target''"
  obtain f where f: "fs_symlink ''/dev/null'' ?t (fs s) = Some f"
    "s' = upd_daemon p (\<lambda>d. d\<lparr>is_masked := True\<rparr>) (s\<lparr>fs := f\<rparr>)"
    using assms(1) mask_eq [OF mask_unlocked [OF assms(1)], of cwd]
    by (auto simp: Let_def split: if_splits option.splits)
  have l: "fs_lstat f q = (if q = ?t then Some (Symlink ''/dev/null'') else fs_lstat (fs s) q)" for q
    using f(1) by (auto simp: fs_symlink_def fs_lstat_def gm.get_put split: if_splits)
  have "fs_symlink ''/dev/null'' ?t f = None" using l by (simp add: fs_symlink_def)
  then have "\<exists>e. mask cwd q s' = Done (Some e, s')" if "q \<notin> set (locks s)" for q
    using that f(2) mask_eq [of q s' cwd] by (auto simp: Let_def)
  with f(2) l assms(2) show ?thesis by auto
qed

theorem mask_is_misplaced_witness:
  "\<exists>s'. mask ''/srv'' 0 bare_sys = Done (None, s') \<and> fs_lstat (fs s') ''/etc/systemd/system/a.service'' = None"
proof -
  have "case mask ''/srv'' 0 bare_sys of Done (None, s1) \<Rightarrow> True | _ \<Rightarrow> False" by code_simp
  then obtain s' where s': "mask ''/srv'' 0 bare_sys = Done (None, s')"
    by (auto split: outcome.splits option.splits prod.splits)
  have "mask_path (dname (heap bare_sys 0)) = ''/etc/systemd/system/a.service''" "fs bare_sys = []"
    "path_join ''/srv'' ''target'' \<noteq> mask_path (dname (heap bare_sys 0))"
    by (simp_all add: bare_sys_def resting_def init_sys_def new_daemon_def mask_path_def path_join_def etc_units_def)
  with mask_is_misplaced [OF s'] s' show ?thesis by (simp add: fs_lstat_def)
qed

end
