(* ===== verification/Commands.thy ===== *)
theory Commands
  imports DaemonFiles
begin

text \<open>
  The commands of the control socket, \<open>systemd/command.go\<close>. A handler is an \<open>Execute\<close> method; it
  answers with a \<open>reply\<close> (its \<open>cmdResponse\<close>, or no error) and may send text on the way.

  \<^item> \<open>up\<close> says whether the global \<open>d\<close> of the package is set: it is nil until \<open>daemons.New\<close> has returned,
    which starts all enabled services first, while the socket already accepts commands.
  \<^item> The parser of the command line is a third-party package: \<open>parse\<close> is its result on the arguments.
  \<^item> \<open>set-environment\<close> and \<open>unset-environment\<close> work on the environment of the process, a map.
\<close>

section \<open>Replies\<close>

datatype reply = NoReply | Reply bool "part list"

type_synonym handler = "sys \<Rightarrow> (reply \<times> sys) outcome"

definition send :: "part list \<Rightarrow> sys \<Rightarrow> sys" where
  "send m s = emit (Sent m) s"

definition newline :: part where "newline = Str [CHR 0x0A]"

record ctx =
  up :: bool
  range_by :: range_order
  fuel_of :: nat
  world :: env
  work_dir :: string
  marshaller :: "daemondef option \<Rightarrow> string"

section \<open>Finding services\<close>

text \<open>\<open>d.Find\<close> and \<open>d.Reload\<close> on the interface \<open>d\<close>.\<close>

definition d_find :: "ctx \<Rightarrow> string \<Rightarrow> sys \<Rightarrow> (ref option \<times> sys) outcome" where
  "d_find c name s = (if up c then ds_find (range_by c) name s else Crash NilDeref)"

definition d_reload :: "ctx \<Rightarrow> sys \<Rightarrow> sys outcome" where
  "d_reload c s = (if up c then ds_reload (range_by c) s else Crash NilDeref)"

fun find_each :: "ctx \<Rightarrow> string list \<Rightarrow> ref list \<Rightarrow> sys \<Rightarrow> ((part list + ref list) \<times> sys) outcome" where
  "find_each c [] ps s = Done (Inr ps, s)"
| "find_each c (n # ns) ps s =
     (let n = trim_suffix n ''.service'' in
      andthen (d_find c n s) (\<lambda>(r, s).
        case r of
          None \<Rightarrow> Done (Inl [Str (n @ '': ''), Err DaemonNotFound], s)
        | Some p \<Rightarrow> find_each c ns (ps @ [p]) s))"

definition no_name :: "part list" where
  "no_name = [Str ''service name not provided; usage: systemctl command servicename'']"

definition find_daemons :: "ctx \<Rightarrow> string list \<Rightarrow> sys \<Rightarrow> ((part list + ref list) \<times> sys) outcome" where
  "find_daemons c names s =
     (if names = [] then Done (Inl no_name, s)
      else if \<not> up c then Done (Inr [], s)
      else find_each c names [] s)"

text \<open>The reply for an error of a service.\<close>

definition failed_at :: "ref \<Rightarrow> derr \<Rightarrow> sys \<Rightarrow> reply" where
  "failed_at p e s = Reply True [Str (dname (heap s p) @ '': ''), Err e]"

section \<open>Instances of a template\<close>

text \<open>\<open>sp[1]\<close> panics if the argument has no \<open>@\<close>.\<close>

definition add_instance :: "ctx \<Rightarrow> string \<Rightarrow> handler" where
  "add_instance c arg s =
     (let sp = split_at (CHR ''@'') arg in
      andthen (d_find c (hd sp @ ''@'') s) (\<lambda>(r, s).
        case r of
          None \<Rightarrow> Done (Reply True [Err DaemonNotFound], s)
        | Some p \<Rightarrow>
            if length sp < 2 then Crash IndexRange
            else andthen (create_instance p (sp ! 1) s) (\<lambda>(e, s).
              case e of None \<Rightarrow> Done (NoReply, s) | Some e \<Rightarrow> Done (failed_at p e s, s))))"

text \<open>A loop of handlers that ends at the first reply.\<close>

fun each_arg :: "('x \<Rightarrow> handler) \<Rightarrow> 'x list \<Rightarrow> handler" where
  "each_arg h [] s = Done (NoReply, s)"
| "each_arg h (a # as) s =
     andthen (h a s) (\<lambda>(r, s). if r = NoReply then each_arg h as s else Done (r, s))"

text \<open>A handler followed by another, if it did not reply.\<close>

definition then_do :: "handler \<Rightarrow> handler \<Rightarrow> handler" where
  "then_do h k s = andthen (h s) (\<lambda>(r, s). if r = NoReply then k s else Done (r, s))"

definition reload_then :: "ctx \<Rightarrow> reply \<Rightarrow> handler" where
  "reload_then c r s = andthen (d_reload c s) (\<lambda>s. Done (r, s))"

definition cmd_create_instance :: "ctx \<Rightarrow> string list \<Rightarrow> handler" where
  "cmd_create_instance c args =
     then_do (each_arg (add_instance c) args) (reload_then c (Reply False [Str ''Services Created'']))"

definition remove_service :: "ctx \<Rightarrow> string \<Rightarrow> handler" where
  "remove_service c arg s =
     andthen (d_find c arg s) (\<lambda>(r, s).
       case r of
         None \<Rightarrow> Done (Reply True [Err DaemonNotFound], s)
       | Some p \<Rightarrow> andthen (delete_service p s) (\<lambda>(e, s).
           case e of None \<Rightarrow> Done (NoReply, s) | Some e \<Rightarrow> Done (failed_at p e s, s)))"

definition cmd_delete_instance :: "ctx \<Rightarrow> string list \<Rightarrow> handler" where
  "cmd_delete_instance c args =
     then_do (each_arg (remove_service c) args) (reload_then c (Reply False [Str ''Services Deleted'']))"

text \<open>\<open>start\<close> and \<open>enable\<close> first make the instances that are missing, then reload if they made one.\<close>

fun missing_instances :: "ctx \<Rightarrow> string list \<Rightarrow> bool \<Rightarrow> sys \<Rightarrow> ((reply + bool) \<times> sys) outcome" where
  "missing_instances c [] need s = Done (Inr need, s)"
| "missing_instances c (a # as) need s =
     (if \<not> str_contains a ''@'' then missing_instances c as need s
      else andthen (find_daemons c [a] s) (\<lambda>(r, s).
        case r of
          Inr _ \<Rightarrow> missing_instances c as need s
        | Inl _ \<Rightarrow> andthen (add_instance c a s) (\<lambda>(r, s).
            if r = NoReply then missing_instances c as True s else Done (Inl r, s))))"

definition make_instances :: "ctx \<Rightarrow> string list \<Rightarrow> handler" where
  "make_instances c args s =
     andthen (missing_instances c args False s) (\<lambda>(r, s).
       case r of
         Inl r \<Rightarrow> Done (r, s)
       | Inr need \<Rightarrow> if need then reload_then c NoReply s else Done (NoReply, s))"

section \<open>Commands on every service\<close>

text \<open>The body shared by the handlers: say what is done, do it, say how it went.\<close>

definition announce :: "string \<Rightarrow> (ref \<Rightarrow> go_method) \<Rightarrow> ref \<Rightarrow> handler" where
  "announce doing act p s =
     (let s = send [Str (doing @ '' '' @ dname (heap s p) @ '' ... '')] s in
      andthen (act p s) (\<lambda>(e, s).
        case e of
          None \<Rightarrow> Done (NoReply, send [Str ''OK'', newline] s)
        | Some e \<Rightarrow> (let s = send [Str ''FAIL'', newline] s in Done (failed_at p e s, s))))"

definition with_daemons :: "ctx \<Rightarrow> string list \<Rightarrow> (ref list \<Rightarrow> handler) \<Rightarrow> handler" where
  "with_daemons c args k s =
     andthen (find_daemons c args s) (\<lambda>(r, s).
       case r of Inl m \<Rightarrow> Done (Reply True m, s) | Inr ps \<Rightarrow> k ps s)"

definition on_each :: "ctx \<Rightarrow> string \<Rightarrow> (ref \<Rightarrow> go_method) \<Rightarrow> string list \<Rightarrow> handler" where
  "on_each c doing act args = with_daemons c args (each_arg (announce doing act))"

definition start_one :: "ctx \<Rightarrow> ref \<Rightarrow> go_method" where
  "start_one c p = start (fuel_of c) (world c) (Some p) True"

definition stop_one :: "ctx \<Rightarrow> ref \<Rightarrow> go_method" where
  "stop_one c p = stop (world c) True (Some p)"

definition cmd_start :: "ctx \<Rightarrow> string list \<Rightarrow> handler" where
  "cmd_start c args = then_do (make_instances c args) (on_each c ''Starting'' (start_one c) args)"

definition cmd_enable :: "ctx \<Rightarrow> bool \<Rightarrow> string list \<Rightarrow> handler" where
  "cmd_enable c now args =
     then_do (make_instances c args)
      (with_daemons c args (\<lambda>ps.
        then_do (each_arg (announce ''Enabling'' enable) ps)
          (if now then each_arg (announce ''Starting'' (start_one c)) ps else (\<lambda>s. Done (NoReply, s)))))"

definition cmd_disable :: "ctx \<Rightarrow> string list \<Rightarrow> handler" where
  "cmd_disable c = on_each c ''Disabling'' disable"

definition cmd_stop :: "ctx \<Rightarrow> string list \<Rightarrow> handler" where
  "cmd_stop c = on_each c ''Stopping'' (stop_one c)"

definition cmd_restart :: "ctx \<Rightarrow> string list \<Rightarrow> handler" where
  "cmd_restart c = on_each c ''Restarting'' (restart (fuel_of c) (world c))"

definition cmd_reload :: "ctx \<Rightarrow> string list \<Rightarrow> handler" where
  "cmd_reload c = on_each c ''Reloading'' (reload_daemon (world c))"

definition cmd_mask :: "ctx \<Rightarrow> string list \<Rightarrow> handler" where
  "cmd_mask c = on_each c ''Masking'' (mask (work_dir c))"

definition cmd_unmask :: "ctx \<Rightarrow> string list \<Rightarrow> handler" where
  "cmd_unmask c = on_each c ''Unmasking'' unmask"

definition cmd_daemon_reload :: "ctx \<Rightarrow> handler" where
  "cmd_daemon_reload c = reload_then c NoReply"

section \<open>Reports\<close>

text \<open>Running a body that has no \<open>return\<close> of an error.\<close>

definition ask :: "'a go \<Rightarrow> ('a \<Rightarrow> sys \<Rightarrow> 'b outcome) \<Rightarrow> sys \<Rightarrow> 'b outcome" where
  "ask m k s = andthen (m s) (\<lambda>(x, s). case x of Next a \<Rightarrow> k a s | Return _ \<Rightarrow> Diverge)"

fun status_lines :: "ref list \<Rightarrow> part list \<Rightarrow> sys \<Rightarrow> (part list \<times> sys) outcome" where
  "status_lines [] msg s = Done (msg, s)"
| "status_lines (p # ps) msg s =
     ask (status p) (\<lambda>(t, e) s.
       status_lines ps
         (msg @ (if msg = [] then [] else [newline]) @ [Str (t @ '': '' @ dname (heap s p))] @
          (case e of None \<Rightarrow> [] | Some e \<Rightarrow> [Str '' ERROR: '', Err e])) s) s"

definition cmd_status :: "ctx \<Rightarrow> string list \<Rightarrow> handler" where
  "cmd_status c args s =
     (if args = [] \<and> \<not> up c then Crash NilDeref
      else with_daemons c (if args = [] then ds_list s else args) (\<lambda>ps s.
        andthen (status_lines ps [] s) (\<lambda>(m, s). Done (Reply False m, s))) s)"

fun details :: "ctx \<Rightarrow> ref list \<Rightarrow> part list \<Rightarrow> sys \<Rightarrow> (part list \<times> sys) outcome" where
  "details c [] msg s = Done (msg, s)"
| "details c (p # ps) msg s =
     (let title = Str (''=== '' @ dname (heap s p) @ '' ==='' @ [CHR 0x0A]) in
      ask (detail (marshaller c) p) (\<lambda>t s. details c ps (msg @ [title, Str t]) s) s)"

definition cmd_show :: "ctx \<Rightarrow> string list \<Rightarrow> handler" where
  "cmd_show c args = with_daemons c args (\<lambda>ps s.
     andthen (details c ps [] s) (\<lambda>(m, s). Done (Reply False m, s)))"

fun list_lines :: "ctx \<Rightarrow> string list \<Rightarrow> string list \<Rightarrow> sys \<Rightarrow> (string list \<times> sys) outcome" where
  "list_lines c [] ls s = Done (ls, s)"
| "list_lines c (n # ns) ls s =
     andthen (d_find c n s) (\<lambda>(r, s).
       case r of
         None \<Rightarrow> list_lines c ns (ls @ [n]) s
       | Some p \<Rightarrow> ask (is_enabled p) (\<lambda>b s. list_lines c ns (ls @ [if b then n @ '' (enabled)'' else n]) s) s)"

definition cmd_list :: "ctx \<Rightarrow> handler" where
  "cmd_list c s =
     (if \<not> up c then Crash NilDeref
      else andthen (list_lines c (ds_list s) [] s) (\<lambda>(ls, s).
        Done (Reply False [Str (join_with [CHR 0x0A] ls)], s)))"

definition cmd_poweroff :: handler where
  "cmd_poweroff s = Done (Reply False [Str ''Shutting down system...''], emit SignalledSelf s)"

section \<open>The environment of the process\<close>

type_synonym environ = "(string, string) gomap"

text \<open>\<open>os.Unsetenv\<close>, and \<open>os.Setenv\<close>, which refuses an empty name, a name with \<open>=\<close> or a zero byte, and a
  value with a zero byte; its error is dropped.\<close>

definition unsetenv :: "string \<Rightarrow> environ \<Rightarrow> environ" where
  "unsetenv k ev = AList.delete k ev"

definition setenv :: "string \<Rightarrow> string \<Rightarrow> environ \<Rightarrow> environ" where
  "setenv k v ev =
     (if k = [] \<or> CHR ''='' \<in> set k \<or> CHR 0x00 \<in> set k \<or> CHR 0x00 \<in> set v then ev
      else AList.update k v ev)"

definition cmd_set_environment :: "string list \<Rightarrow> environ \<Rightarrow> environ" where
  "cmd_set_environment args ev = fold unsetenv args ev"

definition unset_one :: "string \<Rightarrow> environ \<Rightarrow> environ" where
  "unset_one arg ev =
     (let arg = (if str_contains arg ''='' then arg else arg @ ''='');
          kv = split_at (CHR ''='') arg
      in setenv (hd kv) (join_with ''='' (tl kv)) ev)"

definition cmd_unset_environment :: "string list \<Rightarrow> environ \<Rightarrow> environ" where
  "cmd_unset_environment args ev = fold unset_one args ev"

section \<open>The dispatcher\<close>

datatype verb =
    Poweroff | Enable bool | Disable | DaemonReload | StartVerb | StopVerb | RestartVerb | ReloadVerb
  | StatusVerb | MaskVerb | UnmaskVerb | ShowVerb | CreateInstance | DeleteInstance
  | SetEnvironment | UnsetEnvironment | ListVerb

datatype parsed = RunVerb verb "string list" | UnknownCommand string | OtherFlagsError

type_synonym server = "sys \<times> environ"

definition run_verb :: "ctx \<Rightarrow> verb \<Rightarrow> string list \<Rightarrow> server \<Rightarrow> (reply \<times> server) outcome" where
  "run_verb c v args sv =
     (let (s, ev) = sv; run = (\<lambda>h. andthen (h s) (\<lambda>(r, s'). Done (r, (s', ev)))) in
      case v of
        Poweroff \<Rightarrow> run cmd_poweroff
      | Enable now \<Rightarrow> run (cmd_enable c now args)
      | Disable \<Rightarrow> run (cmd_disable c args)
      | DaemonReload \<Rightarrow> run (cmd_daemon_reload c)
      | StartVerb \<Rightarrow> run (cmd_start c args)
      | StopVerb \<Rightarrow> run (cmd_stop c args)
      | RestartVerb \<Rightarrow> run (cmd_restart c args)
      | ReloadVerb \<Rightarrow> run (cmd_reload c args)
      | StatusVerb \<Rightarrow> run (cmd_status c args)
      | MaskVerb \<Rightarrow> run (cmd_mask c args)
      | UnmaskVerb \<Rightarrow> run (cmd_unmask c args)
      | ShowVerb \<Rightarrow> run (cmd_show c args)
      | CreateInstance \<Rightarrow> run (cmd_create_instance c args)
      | DeleteInstance \<Rightarrow> run (cmd_delete_instance c args)
      | SetEnvironment \<Rightarrow> Done (NoReply, (s, cmd_set_environment args ev))
      | UnsetEnvironment \<Rightarrow> Done (NoReply, (s, cmd_unset_environment args ev))
      | ListVerb \<Rightarrow> run (cmd_list c))"

text \<open>The exit code for the client. An error of the parser other than an unknown command falls out
  of the type switch. \<open>help\<close> is the text of the parser's help.\<close>

definition command :: "ctx \<Rightarrow> (string list \<Rightarrow> parsed) \<Rightarrow> string \<Rightarrow> string list \<Rightarrow> server \<Rightarrow> (nat \<times> server) outcome" where
  "command c parse help args sv =
     (if args = [] \<or> hd args = ''-h'' \<or> hd args = ''--help''
      then Done (0, (send [Str help, newline] (fst sv), snd sv))
      else case parse args of
        UnknownCommand msg \<Rightarrow> Done (0, (send [Str msg, newline] (fst sv), snd sv))
      | OtherFlagsError \<Rightarrow> Done (0, sv)
      | RunVerb v rest \<Rightarrow> andthen (run_verb c v rest sv) (\<lambda>(r, sv).
          case r of
            NoReply \<Rightarrow> Done (0, sv)
          | Reply is_err msg \<Rightarrow>
              Done (if is_err then 1 else 0, (send (msg @ [newline]) (fst sv), snd sv))))"

section \<open>Commands on every service, specified\<close>

text \<open>The action succeeded on every service of the list, in order.\<close>

inductive acted :: "string \<Rightarrow> (ref \<Rightarrow> go_method) \<Rightarrow> ref list \<Rightarrow> sys \<Rightarrow> sys \<Rightarrow> bool"
  for doing act where
  acted_Nil: "acted doing act [] s s"
| acted_Cons: "act p (send [Str (doing @ '' '' @ dname (heap s p) @ '' ... '')] s) = Done (None, t) \<Longrightarrow>
    acted doing act ps (send [Str ''OK'', newline] t) s' \<Longrightarrow> acted doing act (p # ps) s s'"

inductive_cases acted_ConsE: "acted doing act (p # ps) s s'"
inductive_cases acted_NilE: "acted doing act [] s s'"
inductive_simps acted_simps [simp]: "acted doing act [] s s'" "acted doing act (p # ps) s s'"

lemma failed_at_reply: "failed_at p e s \<noteq> NoReply" "\<exists>m. failed_at p e s = Reply True m"
  by (simp_all add: failed_at_def)

lemma announce_cases:
  assumes "announce doing act p s = Done (r, s')"
  obtains (ok) t where "act p (send [Str (doing @ '' '' @ dname (heap s p) @ '' ... '')] s) = Done (None, t)"
      "r = NoReply" "s' = send [Str ''OK'', newline] t"
    | (failed) e t m where "act p (send [Str (doing @ '' '' @ dname (heap s p) @ '' ... '')] s) = Done (Some e, t)"
      "r = Reply True (Str m # [Err e])" "s' = send [Str ''FAIL'', newline] t"
proof -
  from assms obtain e t where "act p (send [Str (doing @ '' '' @ dname (heap s p) @ '' ... '')] s) = Done (e, t)"
    "(case e of None \<Rightarrow> Done (NoReply, send [Str ''OK'', newline] t)
        | Some e \<Rightarrow> (let s = send [Str ''FAIL'', newline] t in Done (failed_at p e s, s))) = Done (r, s')"
    by (auto simp: announce_def Let_def andthen_Done_iff)
  then show thesis using ok failed by (cases e) (auto simp: Let_def failed_at_def)
qed

lemma each_announce:
  assumes "each_arg (announce doing act) ps s = Done (r, s')"
  shows "(r = NoReply \<and> acted doing act ps s s') \<or>
    (\<exists>us p vs t e u m. ps = us @ p # vs \<and> acted doing act us s t \<and> r = Reply True (Str m # [Err e]) \<and>
       act p (send [Str (doing @ '' '' @ dname (heap t p) @ '' ... '')] t) = Done (Some e, u) \<and>
       s' = send [Str ''FAIL'', newline] u)"
  using assms
proof (induction ps arbitrary: s)
  case (Cons p ps)
  from Cons.prems obtain r1 s1 where a: "announce doing act p s = Done (r1, s1)"
    and rest: "(if r1 = NoReply then each_arg (announce doing act) ps s1 else Done (r1, s1)) = Done (r, s')"
    by (auto simp: andthen_Done_iff)
  from a show ?case
  proof (cases rule: announce_cases)
    case (ok t)
    with rest Cons.IH [of s1] have "(r = NoReply \<and> acted doing act ps s1 s') \<or>
    (\<exists>us q vs t e u m. ps = us @ q # vs \<and> acted doing act us s1 t \<and> r = Reply True (Str m # [Err e]) \<and>
       act q (send [Str (doing @ '' '' @ dname (heap t q) @ '' ... '')] t) = Done (Some e, u) \<and>
       s' = send [Str ''FAIL'', newline] u)" by simp
    then show ?thesis
    proof (elim disjE exE conjE)
      assume "r = NoReply" "acted doing act ps s1 s'"
      then show ?thesis using ok by auto
    next
      fix us q vs t' e u m
      assume "ps = us @ q # vs" "acted doing act us s1 t'" "r = Reply True (Str m # [Err e])"
       "act q (send [Str (doing @ '' '' @ dname (heap t' q) @ '' ... '')] t') = Done (Some e, u)"
       "s' = send [Str ''FAIL'', newline] u"
      moreover from this(2) ok have "acted doing act (p # us) s t'" by auto
      ultimately show ?thesis
        by (intro disjI2 exI [of _ "p # us"] exI [of _ q] exI [of _ vs] exI [of _ t'] exI [of _ e] exI [of _ u]
            exI [of _ m]) simp
    qed
  next
    case (failed e t m)
    then show ?thesis using rest
      by (intro disjI2 exI [of _ "[]"] exI [of _ p] exI [of _ ps] exI [of _ s] exI [of _ e] exI [of _ t] exI [of _ m])
        simp
  qed
qed simp

text \<open>The commands that do one thing to every service.\<close>

fun verb_action :: "ctx \<Rightarrow> verb \<Rightarrow> (string \<times> (ref \<Rightarrow> go_method)) option" where
  "verb_action c Disable = Some (''Disabling'', disable)"
| "verb_action c StopVerb = Some (''Stopping'', stop_one c)"
| "verb_action c RestartVerb = Some (''Restarting'', restart (fuel_of c) (world c))"
| "verb_action c ReloadVerb = Some (''Reloading'', reload_daemon (world c))"
| "verb_action c MaskVerb = Some (''Masking'', mask (work_dir c))"
| "verb_action c UnmaskVerb = Some (''Unmasking'', unmask)"
| "verb_action c _ = None"

lemma run_verb_action:
  "verb_action c v = Some (doing, act) \<Longrightarrow>
   run_verb c v args (s, ev) = andthen (on_each c doing act args s) (\<lambda>(r, s'). Done (r, (s', ev)))"
  by (cases v) (simp_all add: run_verb_def cmd_disable_def cmd_stop_def cmd_restart_def cmd_reload_def
      cmd_mask_def cmd_unmask_def)

text \<open>
  C7. The exit code of the commands that do one thing to every named service (stop, restart, reload,
  disable, mask, unmask). It is 0 exactly if the action succeeded on all of them, in the order
  named. Otherwise it is 1: the services before the first failure have been dealt with, the ones
  after it have not been touched, and the error is sent to the client.
\<close>

theorem service_commands:
  assumes "verb_action c v = Some (doing, act)" "parse args = RunVerb v rest"
    and "args \<noteq> []" "hd args \<notin> {''-h'', ''--help''}" "find_daemons c rest s = Done (Inr ps, s0)"
    and "command c parse help args (s, ev) = Done (code, (s', ev'))"
  shows "ev' = ev \<and> ((code = 0 \<and> acted doing act ps s0 s') \<or>
    (code = 1 \<and> (\<exists>us p vs t e u m. ps = us @ p # vs \<and> acted doing act us s0 t \<and>
       act p (send [Str (doing @ '' '' @ dname (heap t p) @ '' ... '')] t) = Done (Some e, u) \<and>
       s' = send [Str m, Err e, newline] (send [Str ''FAIL'', newline] u))))"
proof -
  have "on_each c doing act rest s = each_arg (announce doing act) ps s0"
    using assms(5) by (simp add: on_each_def with_daemons_def)
  with assms obtain r s1 where run: "each_arg (announce doing act) ps s0 = Done (r, s1)"
    and fin: "(case r of NoReply \<Rightarrow> Done (0, (s1, ev))
        | Reply is_err msg \<Rightarrow> Done (if is_err then 1 else 0,
            (send (msg @ [newline]) (fst (s1, ev)), snd (s1, ev)))) = Done (code, (s', ev'))"
    by (auto simp: command_def run_verb_action andthen_Done_iff)
  from each_announce [OF run] show ?thesis
  proof (elim disjE exE conjE)
    assume "r = NoReply" "acted doing act ps s0 s1"
    with fin show ?thesis by simp
  next
    fix us p vs t e u m
    assume a: "ps = us @ p # vs" "acted doing act us s0 t" "r = Reply True (Str m # [Err e])"
       "act p (send [Str (doing @ '' '' @ dname (heap t p) @ '' ... '')] t) = Done (Some e, u)"
       "s1 = send [Str ''FAIL'', newline] u"
    with fin have "ev' = ev" "code = 1" "s' = send [Str m, Err e, newline] (send [Str ''FAIL'', newline] u)"
      by auto
    with a show ?thesis by blast
  qed
qed

section \<open>Before the registry exists\<close>

text \<open>
  C28. While the enabled services are still being started at boot, the registry is not there yet. The
  commands on named services do nothing then and report success, with exit code 0; \<open>list\<close>,
  \<open>daemon-reload\<close>, \<open>create-instance\<close> and \<open>status\<close> without a name take down the init process.
\<close>

theorem commands_during_boot:
  assumes "\<not> up c" "names \<noteq> []"
  shows "run_verb c StartVerb names (s, ev) = Done (NoReply, (s, ev)) \<and>
    run_verb c (Enable now) names (s, ev) = Done (NoReply, (s, ev)) \<and>
    (verb_action c v \<noteq> None \<longrightarrow> run_verb c v names (s, ev) = Done (NoReply, (s, ev))) \<and>
    run_verb c ListVerb args (s, ev) = Crash NilDeref \<and>
    run_verb c DaemonReload args (s, ev) = Crash NilDeref \<and>
    run_verb c CreateInstance args (s, ev) = Crash NilDeref \<and>
    run_verb c StatusVerb [] (s, ev) = Crash NilDeref"
proof -
  have find: "find_daemons c ns s = Done (Inr [], s)" if "ns \<noteq> []" for ns s
    using assms(1) that by (simp add: find_daemons_def)
  have "missing_instances c ns b s = Done (Inr b, s)" for ns b s
    by (induction ns) (simp_all add: find)
  then have inst: "make_instances c ns s = Done (NoReply, s)" for ns s
    by (simp add: make_instances_def)
  have "run_verb c v names (s, ev) = Done (NoReply, (s, ev))" if a: "verb_action c v = Some (doing, act)" for doing act
    using find [OF assms(2)] by (simp add: run_verb_action [OF a] on_each_def with_daemons_def)
  moreover have "d_find c n s = Crash NilDeref" "d_reload c s = Crash NilDeref" for n s
    using assms(1) by (simp_all add: d_find_def d_reload_def)
  then have "cmd_create_instance c args s = Crash NilDeref"
    by (cases args) (simp_all add: cmd_create_instance_def then_do_def add_instance_def reload_then_def Let_def)
  ultimately show ?thesis
    using assms find [OF assms(2)] inst
    by (auto simp: run_verb_def cmd_start_def cmd_enable_def then_do_def on_each_def with_daemons_def cmd_list_def
        cmd_daemon_reload_def reload_then_def d_reload_def cmd_status_def)
qed

section \<open>Two slips\<close>

lemma str_contains_char: "str_contains s [c] \<longleftrightarrow> c \<in> set s"
  by (induction s) (auto simp: has_prefix_def)

text \<open>
  C39. \<open>set-environment\<close> and \<open>unset-environment\<close> are exchanged: the former changes nothing on an
  assignment, the latter makes it.
\<close>

theorem environment_commands_exchanged:
  assumes "CHR ''='' \<notin> set k" "k \<noteq> []" "\<forall>x\<in>set (gm_keys ev). CHR ''='' \<notin> set x"
  shows "cmd_set_environment [k @ ''='' @ v] ev = ev \<and>
    cmd_unset_environment [k @ ''='' @ v] ev =
      (if CHR 0x00 \<in> set (k @ v) then ev else AList.update k v ev)"
proof -
  have "k @ ''='' @ v \<notin> set (gm_keys ev)" using assms(3) by force
  then have "AList.delete (k @ ''='' @ v) ev = ev"
    by (intro delete_id) simp
  moreover have "str_contains (k @ ''='' @ v) ''=''" by (simp add: str_contains_char)
  moreover have "split_at (CHR ''='') (k @ ''='' @ v) = k # split_at (CHR ''='') v"
    using split_at_append [OF assms(1), of v] by simp
  ultimately show ?thesis
    using assms(1,2)
    by (simp add: join_split cmd_set_environment_def unsetenv_def cmd_unset_environment_def unset_one_def setenv_def)
qed

text \<open>
  \<open>create-instance\<close> on the name of a template without its \<open>@\<close> takes down the init process, once
  the instances named before it have been made.
\<close>

theorem create_instance_panics:
  assumes "up c" "each_arg (add_instance c) pre s = Done (NoReply, t)"
    and "CHR ''@'' \<notin> set arg" "map_of (dlist t) (arg @ ''@'') = Some p"
  shows "run_verb c CreateInstance (pre @ arg # rest) (s, ev) = Crash IndexRange"
proof -
  have "add_instance c arg t = Crash IndexRange"
    using assms(1,3,4) by (simp add: add_instance_def split_at_none d_find_def ds_find_def)
  then have "each_arg (add_instance c) (pre @ arg # rest) s = Crash IndexRange"
    using assms(2)
    by (induction pre arbitrary: s) (auto simp: andthen_Done_iff split: if_splits)
  then show ?thesis by (simp add: run_verb_def cmd_create_instance_def then_do_def)
qed

section \<open>Concrete commands\<close>

definition calm_ctx :: "bool \<Rightarrow> ctx" where
  "calm_ctx b = \<lparr>up = b, range_by = id, fuel_of = 2, world = calm_env 0, work_dir = ''/'', marshaller = (\<lambda>_. [])\<rparr>"

definition named_sys :: "string \<Rightarrow> sys" where
  "named_sys n = (resting [empty_def])\<lparr>dlist := [(n, 0)]\<rparr>"

theorem service_commands_witness:
  "\<exists>s'. command (calm_ctx True) (\<lambda>_. RunVerb Disable [''a.service'']) [] [''disable'', ''a.service'']
       (named_sys ''a'', []) = Done (0, (s', [])) \<and>
     acted ''Disabling'' disable [0] (named_sys ''a'') s'"
proof -
  have f: "find_daemons (calm_ctx True) [''a.service''] (named_sys ''a'') = Done (Inr [0], named_sys ''a'')"
    by (simp add: find_daemons_def calm_ctx_def d_find_def ds_find_def named_sys_def trim_suffix_def has_suffix_def)
  have "case command (calm_ctx True) (\<lambda>_. RunVerb Disable [''a.service'']) [] [''disable'', ''a.service'']
       (named_sys ''a'', []) of Done (n, _) \<Rightarrow> n = 0 | _ \<Rightarrow> False" by code_simp
  then obtain s' ev' where run: "command (calm_ctx True) (\<lambda>_. RunVerb Disable [''a.service'']) []
       [''disable'', ''a.service''] (named_sys ''a'', []) = Done (0, (s', ev'))"
    by (auto split: outcome.splits prod.splits)
  from service_commands [OF _ _ _ _ f run, where v = Disable and doing = "''Disabling''" and act = disable] run
  show ?thesis by auto
qed

theorem commands_during_boot_witness:
  "run_verb (calm_ctx False) StartVerb [''a''] (named_sys ''a'', []) = Done (NoReply, (named_sys ''a'', [])) \<and>
   run_verb (calm_ctx False) ListVerb [] (named_sys ''a'', []) = Crash NilDeref"
  using commands_during_boot [of "calm_ctx False" "[''a'']" "named_sys ''a''" "[]"] by (simp add: calm_ctx_def)

theorem environment_commands_exchanged_witness:
  "map_of (cmd_unset_environment [''A=1''] [(''B'', ''2'')]) ''A'' = Some ''1''"
  using environment_commands_exchanged [of "''A''" "[(''B'', ''2'')]" "''1''"] by (simp add: gm.get_put)

theorem create_instance_panics_witness:
  "run_verb (calm_ctx True) CreateInstance [''a''] (named_sys ''a@'', []) = Crash IndexRange"
  using create_instance_panics [of "calm_ctx True" "[]" "named_sys ''a@''" "named_sys ''a@''" "''a''" 0 "[]" "[]"]
  by (simp add: calm_ctx_def named_sys_def)

end
