(* ===== verification/Monitor.thy ===== *)
theory Monitor
  imports Commands
begin

text \<open>
  What runs beside a started service: \<open>monitorCmds\<close>, which waits for its processes and applies the
  restart policy, \<open>monitorNeeded\<close> and \<open>handleStopDeps\<close>, of \<open>systemd/daemons/daemon.go\<close>.

  \<open>waits\<close> are the answers to what the monitor asks of the system: the exit status of a process
  (\<open>None\<close> for one that is gone already), the process list, and the tracked children of a process.
  The loops that ask until nothing is left get fuel.
\<close>

record waits =
  wait_status :: "nat \<Rightarrow> int \<Rightarrow> int option"
  process_list :: "nat \<Rightarrow> (int \<times> int \<times> string option) list option"
  tracked :: "nat \<Rightarrow> int \<Rightarrow> int list"

section \<open>Dependencies\<close>

text \<open>\<open>dep.Stop()\<close> for each of a list, errors only logged.\<close>

definition stop_linked :: "env \<Rightarrow> dep_kind \<Rightarrow> ref \<Rightarrow> unit go" where
  "stop_linked E k p =
     go_bind (the_def p) (\<lambda>df.
     go_for (\<lambda>(_, i). go_bind (go_call (stop E True i)) (\<lambda>_. go_next ())) (deps df k))"

definition handle_stop_deps :: "env \<Rightarrow> ref \<Rightarrow> unit go" where
  "handle_stop_deps E p = go_bind (stop_linked E BoundBy p) (\<lambda>_. stop_linked E ConsistsOf p)"

text \<open>\<open>dep.State()\<close>\<close>

definition state_of :: "ref option \<Rightarrow> dstate go" where
  "state_of i = (case i of
     None \<Rightarrow> (\<lambda>_. Crash NilDeref)
   | Some q \<Rightarrow> go_bind (take_lock q) (\<lambda>_. go_get (\<lambda>s. dstate (heap s q))))"

text \<open>A loop over the services that need this one: its \<open>continue\<close> goes on with the same loop.\<close>

definition look_one :: "string \<times> ref option \<Rightarrow> unit go" where
  "look_one d = go_bind (state_of (snd d)) (\<lambda>st. if st = StateRunning then go_next () else go_next ())"

definition look_at :: "dep_kind \<Rightarrow> ref \<Rightarrow> unit go" where
  "look_at k p =
     go_bind (the_def p) (\<lambda>df. go_for look_one (deps df k))"

definition needing_kinds :: "dep_kind list" where
  "needing_kinds = [WantedBy, RequiredBy, RequisiteOf, BoundBy, ConsistsOf, UpheldBy]"

fun monitor_needed :: "nat \<Rightarrow> env \<Rightarrow> ref \<Rightarrow> unit go" where
  "monitor_needed 0 E p = (\<lambda>_. Diverge)"
| "monitor_needed (Suc n) E p =
     go_bind (go_modify (yield_to E)) (\<lambda>_.
     go_bind (state_of (Some p)) (\<lambda>st.
     if st = StateStopped then go_next ()
     else
     go_bind (the_def p) (\<lambda>df.
     if \<not> StopWhenUnneeded df then monitor_needed n E p
     else
     go_bind (go_for (\<lambda>k. look_at k p) needing_kinds) (\<lambda>_.
     go_bind (go_call (stop E True (Some p))) (\<lambda>_. go_next ())))))"

section \<open>Waiting for the processes\<close>

definition wait_pid :: "env \<Rightarrow> waits \<Rightarrow> int \<Rightarrow> int option go" where
  "wait_pid E W pid = (\<lambda>s. Done (Next (wait_status W (ticks s) pid), yield_to E s))"

fun wait_pids :: "env \<Rightarrow> waits \<Rightarrow> int list \<Rightarrow> int option list go" where
  "wait_pids E W [] = go_next []"
| "wait_pids E W (pid # ps) =
     go_bind (wait_pid E W pid) (\<lambda>a. go_bind (wait_pids E W ps) (\<lambda>as. go_next (a # as)))"

text \<open>The main commands; \<open>cmd.Process.Pid\<close> of one that has no process panics.\<close>

fun wait_cmds :: "env \<Rightarrow> waits \<Rightarrow> cmd list \<Rightarrow> (int \<times> int option) list go" where
  "wait_cmds E W [] = go_next []"
| "wait_cmds E W (None # cs) = (\<lambda>_. Crash NilDeref)"
| "wait_cmds E W (Some pid # cs) =
     go_bind (wait_pid E W pid) (\<lambda>a. go_bind (wait_cmds E W cs) (\<lambda>as. go_next ((pid, a) # as)))"

definition set_pids :: "ref \<Rightarrow> int list \<Rightarrow> unit go" where
  "set_pids p ps = set_daemon p (\<lambda>d. d\<lparr>pids := ps\<rparr>)"

text \<open>The process number in a pid file: its digits, if they are a number above 1.\<close>

definition pid_file_number :: "string \<Rightarrow> int option" where
  "pid_file_number ct =
     (let ds = filter is_digit ct in
      if ds = [] then None
      else case atoi ds of (v, None) \<Rightarrow> if v > 1 then Some v else None | _ \<Rightarrow> None)"

definition wait_pid_file :: "env \<Rightarrow> waits \<Rightarrow> daemondef \<Rightarrow> ref \<Rightarrow> int option list go" where
  "wait_pid_file E W df p =
     go_bind (go_get (\<lambda>s. fs_read_file (fs s) (PidFile df))) (\<lambda>ct.
     case (case ct of None \<Rightarrow> None | Some ct \<Rightarrow> pid_file_number ct) of
       None \<Rightarrow> go_next []
     | Some v \<Rightarrow>
         go_bind (set_pids p [v]) (\<lambda>_.
         go_bind (wait_pid E W v) (\<lambda>a.
         go_bind (set_pids p []) (\<lambda>_. go_next [a]))))"

text \<open>The orphans of the service: children of process 1 with its name in their environment, once
  for every such entry.\<close>

definition service_entries :: "string \<Rightarrow> string \<Rightarrow> nat" where
  "service_entries name environ =
     length (filter (\<lambda>e. has_prefix e ''SYSTEMD_SERVICE_NAME='' \<and> split_at (CHR ''='') e ! 1 = name)
       (split_at (CHR 0x00) environ))"

definition service_pids :: "string \<Rightarrow> (int \<times> int \<times> string option) list \<Rightarrow> int list" where
  "service_pids name procs =
     concat (map (\<lambda>(pid, ppid, environ).
       if ppid \<noteq> 1 then []
       else case environ of None \<Rightarrow> [] | Some ev \<Rightarrow> replicate (service_entries name ev) pid) procs)"

fun wait_orphans :: "nat \<Rightarrow> env \<Rightarrow> waits \<Rightarrow> ref \<Rightarrow> int option list go" where
  "wait_orphans 0 E W p = (\<lambda>_. Diverge)"
| "wait_orphans (Suc n) E W p =
     go_bind (go_get (\<lambda>s. (process_list W (ticks s), dname (heap s p)))) (\<lambda>(procs, name).
     go_bind (go_modify (yield_to E)) (\<lambda>_.
     case procs of
       None \<Rightarrow> go_next []
     | Some procs \<Rightarrow>
         let ps = service_pids name procs in
         go_bind (set_pids p ps) (\<lambda>_.
         go_bind (wait_pids E W ps) (\<lambda>as.
         if ps = [] then go_next as
         else go_bind (wait_orphans n E W p) (\<lambda>bs. go_next (as @ bs))))))"

definition live_kids :: "env \<Rightarrow> waits \<Rightarrow> nat \<Rightarrow> int list \<Rightarrow> int list" where
  "live_kids E W t parents = concat (map (\<lambda>c. filter (alive E t) (tracked W t c)) parents)"

text \<open>Only the status of a process that could be waited for is kept.\<close>

fun wait_kids :: "nat \<Rightarrow> env \<Rightarrow> waits \<Rightarrow> ref \<Rightarrow> int list \<Rightarrow> int option list go" where
  "wait_kids 0 E W p parents = (\<lambda>_. Diverge)"
| "wait_kids (Suc n) E W p parents =
     go_bind (go_get (\<lambda>s. live_kids E W (ticks s) parents)) (\<lambda>kids.
     go_bind (go_modify (yield_to E)) (\<lambda>_.
     go_bind (set_pids p kids) (\<lambda>_.
     go_bind (wait_pids E W kids) (\<lambda>as.
     let found = filter (\<lambda>a. a \<noteq> None) as in
     if found = [] then go_next []
     else go_bind (wait_kids n E W p parents) (\<lambda>bs. go_next (found @ bs))))))"

definition forking_types :: "string list" where
  "forking_types = [''forking'', ''dbus'', ''notify'', ''notify-reload'']"

definition wait_service :: "nat \<Rightarrow> env \<Rightarrow> waits \<Rightarrow> ref \<Rightarrow> int option list go" where
  "wait_service n E W p =
     go_bind (set_pids p []) (\<lambda>_.
     go_bind (go_get (\<lambda>s. cmds (heap s p))) (\<lambda>cs.
     go_bind (wait_cmds E W cs) (\<lambda>pas.
     go_bind (set_daemon p (\<lambda>d. d\<lparr>cmds := []\<rparr>)) (\<lambda>_.
     go_bind (the_def p) (\<lambda>df.
     if ServiceType df \<notin> set forking_types then go_next (map snd pas)
     else
     go_bind (if PidFile df \<noteq> [] then wait_pid_file E W df p else wait_orphans n E W p) (\<lambda>bs.
     go_bind (wait_kids n E W p (map fst pas)) (\<lambda>ks.
     go_bind (set_pids p []) (\<lambda>_. go_next (map snd pas @ bs @ ks)))))))))"

section \<open>The restart policy\<close>

definition failure :: "int option \<Rightarrow> bool" where
  "failure a = (case a of None \<Rightarrow> False | Some c \<Rightarrow> c \<noteq> 0)"

text \<open>The loop that leaves the last failure in \<open>stateError\<close>.\<close>

definition note_failures :: "int option list \<Rightarrow> derr option \<Rightarrow> derr option" where
  "note_failures as e = fold (\<lambda>a e. if failure a then Some (ExitedWith (the a)) else e) as e"

definition end_action :: "daemondef \<Rightarrow> int option list \<Rightarrow> string" where
  "end_action df as = (if \<exists>a\<in>set as. failure a then FailureAction df else SuccessAction df)"

text \<open>A running service that upholds this one makes it restart always.\<close>

fun upheld :: "(string \<times> ref option) list \<Rightarrow> string \<Rightarrow> string go" where
  "upheld [] r = go_next r"
| "upheld ((_, i) # ds) r = go_bind (state_of i) (\<lambda>st. upheld ds (if st = StateRunning then ''always'' else r))"

definition restart_rule :: "ref \<Rightarrow> daemondef \<Rightarrow> string go" where
  "restart_rule p df =
     go_bind (go_get (\<lambda>s. dstate (heap s p))) (\<lambda>st.
     if st = StateStopped \<or> st = StateStopping \<or> st = StateRestarting then go_next ''no''
     else upheld (deps df UpheldBy) (Restart df))"

definition second :: int where "second = 1000000000"

text \<open>Restarting after the sleep, if the service was not stopped and no shutdown began; \<open>onfail\<close> is
  what is done if the start fails.\<close>

definition restart_later :: "nat \<Rightarrow> env \<Rightarrow> ref \<Rightarrow> unit go \<Rightarrow> unit go \<Rightarrow> unit go" where
  "restart_later n E p before onfail =
     go_bind (set_daemon p (\<lambda>d. d\<lparr>dstate := StateRestarting\<rparr>)) (\<lambda>_.
     go_bind (go_modify (yield_to E)) (\<lambda>_.
     go_bind (go_get (\<lambda>s. (is_shutting_down s, dstate (heap s p)))) (\<lambda>(down, st).
     if down \<or> st = StateStopped then go_return None
     else
     go_bind before (\<lambda>_.
     go_bind (go_get (\<lambda>s. is_manual (heap s p))) (\<lambda>m.
     go_bind (go_call (start n E (Some p) m)) (\<lambda>err.
     if err = None then go_next () else onfail))))))"

definition stopped_for_good :: "env \<Rightarrow> ref \<Rightarrow> unit go" where
  "stopped_for_good E p =
     go_bind (set_daemon p (\<lambda>d. d\<lparr>dstate := StateStopped, is_manual := False\<rparr>)) (\<lambda>_. handle_stop_deps E p)"

definition failure_rules :: "string list" where
  "failure_rules = [''on-failure'', ''on-abnormal'', ''on-watchdog'', ''on-abort'']"

definition set_error :: "ref \<Rightarrow> derr option \<Rightarrow> unit go" where
  "set_error p e = set_daemon p (\<lambda>d. d\<lparr>state_error := e\<rparr>)"

definition apply_rule :: "nat \<Rightarrow> env \<Rightarrow> ref \<Rightarrow> daemondef \<Rightarrow> int option list \<Rightarrow> string \<Rightarrow> unit go" where
  "apply_rule n E p df as rule =
     (if rule = ''always''
      then restart_later n E p (set_error p None) (go_return None)
      else if rule \<in> set failure_rules
      then
        go_bind (set_error p (note_failures as None)) (\<lambda>_.
        if note_failures as None \<noteq> None then restart_later n E p (go_next ()) (go_return None)
        else if \<not> RemainAfterExit df then stopped_for_good E p else go_next ())
      else if rule = ''on-success''
      then
        go_bind (set_error p (note_failures as None)) (\<lambda>_.
        if note_failures as None = None \<and> \<not> RemainAfterExit df
        then restart_later n E p (go_next ()) (go_bind (handle_stop_deps E p) (\<lambda>_. go_return None))
        else if note_failures as None \<noteq> None then stopped_for_good E p else go_next ())
      else
        go_bind (set_daemon p (\<lambda>d. d\<lparr>state_error := note_failures as (state_error d)\<rparr>)) (\<lambda>_.
        go_bind (go_get (\<lambda>s. state_error (heap s p))) (\<lambda>e.
        if \<not> RemainAfterExit df \<or> e \<noteq> None then stopped_for_good E p else go_next ())))"

definition monitor_body :: "nat \<Rightarrow> env \<Rightarrow> waits \<Rightarrow> ref \<Rightarrow> unit go" where
  "monitor_body n E W p =
     go_bind (go_modify (emit (NeededForked p))) (\<lambda>_.
     go_bind (wait_service n E W p) (\<lambda>as.
     go_bind (the_def p) (\<lambda>df.
     if has_prefix (end_action df as) ''poweroff''
     then go_bind (go_modify (emit PoweroffRun)) (\<lambda>_. go_return None)
     else
     go_bind (restart_rule p df) (\<lambda>rule.
     go_bind (go_modify (upd_def p (\<lambda>df. if RestartSleep df = 0 then df\<lparr>RestartSleep := second\<rparr> else df))) (\<lambda>_.
     apply_rule n E p df as rule)))))"

definition monitor_cmds :: "nat \<Rightarrow> env \<Rightarrow> waits \<Rightarrow> ref \<Rightarrow> go_method" where
  "monitor_cmds n E W p = go_fun (monitor_body n E W p)"

section \<open>What the monitor does when the processes are gone\<close>

lemma go_bind_call: "go_bind (go_call c) f s = andthen (c s) (\<lambda>(e, t). f e t)"
  by (cases "c s") (auto simp: go_bind_def go_call_def)

lemma wait_pid_bind: "go_bind (wait_pid E W pid) f s = f (wait_status W (ticks s) pid) (yield_to E s)"
  by (simp add: go_bind_def wait_pid_def)

text \<open>The statuses of the processes, waited for one after the other.\<close>

fun statuses :: "waits \<Rightarrow> nat \<Rightarrow> int list \<Rightarrow> int option list" where
  "statuses W t [] = []"
| "statuses W t (pid # ps) = wait_status W t pid # statuses W (t + 1) ps"

lemma wait_cmds_run:
  assumes "quiet E" "None \<notin> set cs"
  shows "wait_cmds E W cs s = Done (Next (zip (cmd_pids cs) (statuses W (ticks s) (cmd_pids cs))),
    s\<lparr>ticks := ticks s + length cs\<rparr>)"
  using assms(2)
proof (induction cs arbitrary: s)
  case (Cons c cs)
  then obtain pid where c: "c = Some pid" by (cases c) auto
  let ?s = "s\<lparr>ticks := ticks s + 1\<rparr>"
  have "wait_cmds E W cs ?s = Done (Next (zip (cmd_pids cs) (statuses W (ticks ?s) (cmd_pids cs))),
      ?s\<lparr>ticks := ticks ?s + length cs\<rparr>)"
    using Cons by auto
  then have "go_bind (wait_cmds E W cs) f ?s = f (zip (cmd_pids cs) (statuses W (ticks ?s) (cmd_pids cs)))
      (?s\<lparr>ticks := ticks ?s + length cs\<rparr>)" for f :: "_ \<Rightarrow> (int \<times> int option) list go"
    by (rule go_bind_next)
  then show ?case
    by (simp add: c wait_pid_bind yield_quiet [OF assms(1)])
qed simp

lemma length_statuses [simp]: "length (statuses W t ps) = length ps"
  by (induction ps arbitrary: t) auto

lemma wait_service_run:
  assumes "quiet E" "None \<notin> set (cmds (heap s p))" "def (heap s p) = Some df" "ServiceType df \<notin> set forking_types"
  shows "\<exists>t. wait_service n E W p s = Done (Next (statuses W (ticks s) (cmd_pids (cmds (heap s p)))), t) \<and>
    heap t = (heap s)(p := (heap s p)\<lparr>pids := [], cmds := []\<rparr>) \<and> shutdown t = shutdown s \<and> locks t = locks s \<and>
    events t = events s"
proof -
  let ?s = "upd_daemon p (\<lambda>d. d\<lparr>pids := []\<rparr>) s"
  let ?ps = "cmd_pids (cmds (heap s p))"
  let ?t = "?s\<lparr>ticks := ticks ?s + length (cmds (heap ?s p))\<rparr>"
  have "wait_cmds E W (cmds (heap ?s p)) ?s = Done (Next (zip ?ps (statuses W (ticks s) ?ps)), ?t)"
    using wait_cmds_run [OF assms(1), of "cmds (heap ?s p)" W ?s] assms(2) by simp
  then have "go_bind (wait_cmds E W (cmds (heap ?s p))) f ?s = f (zip ?ps (statuses W (ticks s) ?ps)) ?t"
    for f :: "_ \<Rightarrow> int option list go" by (rule go_bind_next)
  then show ?thesis
    using assms(3,4) by (simp add: wait_service_def set_pids_def go_bind_the_def)
qed

lemma note_failures_None: "note_failures as None = None \<longleftrightarrow> (\<forall>a\<in>set as. \<not> failure a)"
proof (induction as rule: rev_induct)
  case (snoc a as)
  then show ?case by (auto simp: note_failures_def)
qed (simp add: note_failures_def)

lemma handle_stop_deps_none:
  assumes "def (heap s p) = Some df" "deps df BoundBy = []" "deps df ConsistsOf = []"
  shows "handle_stop_deps E p s = Done (Next (), s)"
  using assms by (simp add: handle_stop_deps_def stop_linked_def go_bind_assoc go_bind_the_def)

lemma stopped_for_good_run:
  assumes "def (heap s p) = Some df" "deps df BoundBy = []" "deps df ConsistsOf = []"
  shows "stopped_for_good E p s = Done (Next (), upd_daemon p (\<lambda>d. d\<lparr>dstate := StateStopped, is_manual := False\<rparr>) s)"
  using assms by (simp add: stopped_for_good_def handle_stop_deps_none [of _ p df])

text \<open>When the policy restarts a service, from its definition and whether a process failed.\<close>

definition restarts :: "daemondef \<Rightarrow> bool \<Rightarrow> bool" where
  "restarts df bad \<longleftrightarrow> Restart df = ''always'' \<or> (Restart df \<in> set failure_rules \<and> bad) \<or>
     (Restart df = ''on-success'' \<and> \<not> bad \<and> \<not> RemainAfterExit df)"

lemma failure_rules_other: "''always'' \<notin> set failure_rules" "''on-success'' \<notin> set failure_rules"
  by (simp_all add: failure_rules_def)

lemma apply_rule_stays:
  assumes "def (heap s p) = Some df'" "deps df' BoundBy = []" "deps df' ConsistsOf = []"
    and "state_error (heap s p) = None" "dstate (heap s p) = StateRunning"
    and "bad \<longleftrightarrow> (\<exists>a\<in>set as. failure a)" "\<not> restarts df bad"
  shows "\<exists>s'. apply_rule n E p df as (Restart df) s = Done (Next (), s') \<and>
    dstate (heap s' p) = (if RemainAfterExit df \<and> \<not> bad then StateRunning else StateStopped) \<and>
    state_error (heap s' p) = note_failures as None"
  using assms failure_rules_other note_failures_None [of as]
  by (auto simp: apply_rule_def restarts_def set_error_def stopped_for_good_run [of _ p df'])

text \<open>The start that the policy makes: with the rule \<open>on-success\<close>, if it fails the services that depend
  on this one are stopped.\<close>

lemma restart_later_run:
  assumes "quiet E" "\<not> shutdown s" "before = set_error p None \<or> before = go_next ()" "onfail = go_return None \<or>
    onfail = go_bind (handle_stop_deps E p) (\<lambda>_. go_return None)"
    and "def (heap s p) = Some df" "deps df BoundBy = []" "deps df ConsistsOf = []"
  shows "\<exists>t. go_fun (restart_later n E p before onfail) s =
      andthen (start n E (Some p) (is_manual (heap s p)) t) (\<lambda>(_, u). Done (None, u)) \<and>
    dstate (heap t p) = StateRestarting \<and> cmds (heap t p) = cmds (heap s p) \<and>
    def (heap t p) = def (heap s p) \<and> (\<forall>q. q \<noteq> p \<longrightarrow> heap t q = heap s q) \<and> \<not> shutdown t"
proof -
  let ?s1 = "(upd_daemon p (\<lambda>d. d\<lparr>dstate := StateRestarting\<rparr>) s)\<lparr>ticks := ticks s + 1\<rparr>"
  define t where "t = (if before = go_next () then ?s1 else upd_daemon p (\<lambda>d. d\<lparr>state_error := None\<rparr>) ?s1)"
  have t: "before ?s1 = Done (Next (), t)" "shutdown t = shutdown s"
    using assms(3) by (auto simp: t_def set_error_def)
  have same: "dstate (heap t p) = StateRestarting" "cmds (heap t p) = cmds (heap s p)"
    "def (heap t p) = def (heap s p)" "is_manual (heap t p) = is_manual (heap s p)" "\<forall>q. q \<noteq> p \<longrightarrow> heap t q = heap s q"
    by (simp_all add: t_def)
  have bind: "go_bind before f ?s1 = f () t" for f :: "unit \<Rightarrow> unit go"
    using t(1) by (rule go_bind_next)
  have "go_fun (restart_later n E p before onfail) s =
      andthen (start n E (Some p) (is_manual (heap s p)) t) (\<lambda>(_, u). Done (None, u))"
  proof (cases "start n E (Some p) (is_manual (heap s p)) t")
    case (Done r)
    obtain e u where r: "r = (e, u)" by force
    have u: "same_units t u"
      using quiet_env.start_same_units [OF quiet_env.intro [OF assms(1)]] Done r by simp
    then have "map_option core (def (heap t p)) = map_option core (def (heap u p))"
      by (simp add: same_units_def same_unit_def)
    then obtain b where "def (heap u p) = Some (df\<lparr>RemainAfterExit := b\<rparr>)"
      using core_same same(3) assms(5) by metis
    then have "handle_stop_deps E p u = Done (Next (), u)"
      using assms(6,7) by (intro handle_stop_deps_none [of u p "df\<lparr>RemainAfterExit := b\<rparr>"]) auto
    then have "onfail u = Done (Return None, u)"
      using assms(4) by (auto simp: go_bind_def)
    then show ?thesis
      using Done r assms(2) same(4)
      by (simp add: restart_later_def go_fun_def yield_quiet [OF assms(1)] is_shutting_down_def bind [simplified] go_bind_call)
  qed (use assms(2) same(4) in \<open>simp_all add: restart_later_def go_fun_def yield_quiet [OF assms(1)]
      is_shutting_down_def bind [simplified] go_bind_call\<close>)
  with same t(2) assms(2) show ?thesis by (intro exI [of _ t]) simp
qed

lemma apply_rule_restarts:
  assumes "bad \<longleftrightarrow> (\<exists>a\<in>set as. failure a)" "restarts df bad"
  shows "\<exists>before onfail. (before = set_error p None \<or> before = go_next ()) \<and>
    (onfail = go_return None \<or> onfail = go_bind (handle_stop_deps E p) (\<lambda>_. go_return None)) \<and>
    apply_rule n E p df as (Restart df) s = restart_later n E p before onfail
      (if Restart df = ''always'' then s else upd_daemon p (\<lambda>d. d\<lparr>state_error := note_failures as None\<rparr>) s)"
proof -
  consider "Restart df = ''always''" | "Restart df \<in> set failure_rules" "note_failures as None \<noteq> None"
    | "Restart df = ''on-success''" "note_failures as None = None" "\<not> RemainAfterExit df"
    using assms note_failures_None [of as] by (auto simp: restarts_def)
  then show ?thesis
  proof cases
    case 1
    then show ?thesis
      by (intro exI [of _ "set_error p None"] exI [of _ "go_return None"]) (simp add: apply_rule_def)
  next
    case 2
    then show ?thesis using failure_rules_other
      by (intro exI [of _ "go_next ()"] exI [of _ "go_return None"]) (auto simp: apply_rule_def set_error_def)
  next
    case 3
    then show ?thesis using failure_rules_other
      by (intro exI [of _ "go_next ()"] exI [of _ "go_bind (handle_stop_deps E p) (\<lambda>_. go_return None)"])
        (simp add: apply_rule_def set_error_def)
  qed
qed

text \<open>What a service must be for the policy to decide alone: it runs, no process list is searched, nobody
  upholds it or is stopped with it.\<close>

definition plain_service :: "ref \<Rightarrow> daemondef \<Rightarrow> sys \<Rightarrow> bool" where
  "plain_service p df s = (def (heap s p) = Some df \<and> ServiceType df \<notin> set forking_types \<and>
     \<not> has_prefix (SuccessAction df) ''poweroff'' \<and> \<not> has_prefix (FailureAction df) ''poweroff'' \<and>
     deps df UpheldBy = [] \<and> deps df BoundBy = [] \<and> deps df ConsistsOf = [] \<and>
     dstate (heap s p) = StateRunning \<and> state_error (heap s p) = None \<and> None \<notin> set (cmds (heap s p)))"

text \<open>
  C3. The restart policy. Once its processes are gone, a running service is started again exactly if
  \<open>Restart=\<close> and the exit statuses say so (\<open>restarts\<close>): the start is entered in the state restarting,
  without commands, and its error is only logged. Otherwise the service is stopped, with the last
  bad status as its error; it stays running if \<open>RemainAfterExit\<close> is set and no process failed.
\<close>

theorem monitor_policy:
  assumes "quiet E" "\<not> shutdown s" "plain_service p df s"
    and "as = statuses W (ticks s) (cmd_pids (cmds (heap s p)))" "bad \<longleftrightarrow> (\<exists>a\<in>set as. failure a)"
  shows "if restarts df bad
    then \<exists>t. monitor_cmds n E W p s =
        andthen (start n E (Some p) (is_manual (heap s p)) t) (\<lambda>(_, u). Done (None, u)) \<and>
      dstate (heap t p) = StateRestarting \<and> cmds (heap t p) = [] \<and> \<not> shutdown t \<and>
      (\<forall>q. q \<noteq> p \<longrightarrow> heap t q = heap s q)
    else \<exists>s'. monitor_cmds n E W p s = Done (None, s') \<and>
      dstate (heap s' p) = (if RemainAfterExit df \<and> \<not> bad then StateRunning else StateStopped) \<and>
      state_error (heap s' p) = note_failures as None"
proof -
  have d: "def (heap s p) = Some df" "ServiceType df \<notin> set forking_types" "dstate (heap s p) = StateRunning"
     "deps df UpheldBy = []" "deps df BoundBy = []" "deps df ConsistsOf = []"
     "state_error (heap s p) = None" "None \<notin> set (cmds (heap s p))"
    using assms(3) by (auto simp: plain_service_def)
  let ?s = "emit (NeededForked p) s"
  obtain t where t: "wait_service n E W p ?s = Done (Next as, t)"
    "heap t = (heap s)(p := (heap s p)\<lparr>pids := [], cmds := []\<rparr>)" "shutdown t = shutdown s"
    using wait_service_run [OF assms(1), of ?s p df n W] d unfolding assms(4) by auto
  let ?df = "if RestartSleep df = 0 then df\<lparr>RestartSleep := second\<rparr> else df"
  define u where "u = upd_def p (\<lambda>df. if RestartSleep df = 0 then df\<lparr>RestartSleep := second\<rparr> else df) t"
  have u: "def (heap u p) = Some ?df" "deps ?df BoundBy = []" "deps ?df ConsistsOf = []"
    "state_error (heap u p) = None" "dstate (heap u p) = StateRunning" "cmds (heap u p) = []"
    "is_manual (heap u p) = is_manual (heap s p)" "\<not> shutdown u" "\<forall>q. q \<noteq> p \<longrightarrow> heap u q = heap s q"
    using d t assms(2) by (simp_all add: u_def)
  have "go_bind (wait_service n E W p) f ?s = f as t" for f :: "_ \<Rightarrow> unit go"
    using t(1) by (rule go_bind_next)
  moreover have "\<not> has_prefix (end_action df as) ''poweroff''"
    using assms(3) by (simp add: plain_service_def end_action_def)
  ultimately have "monitor_body n E W p s = apply_rule n E p df as (Restart df) u"
    using t(2) d by (simp add: monitor_body_def go_bind_the_def restart_rule_def go_bind_assoc u_def [symmetric])
  then have run: "monitor_cmds n E W p s = go_fun (apply_rule n E p df as (Restart df)) u"
    by (simp add: monitor_cmds_def go_fun_def)
  show ?thesis
  proof (cases "restarts df bad")
    case False
    obtain s' where "apply_rule n E p df as (Restart df) u = Done (Next (), s')"
      "dstate (heap s' p) = (if RemainAfterExit df \<and> \<not> bad then StateRunning else StateStopped)"
      "state_error (heap s' p) = note_failures as None"
      using apply_rule_stays [OF u(1-5) assms(5) False] by blast
    with False show ?thesis by (simp add: run go_fun_def)
  next
    case True
    define v where "v = (if Restart df = ''always'' then u else upd_daemon p (\<lambda>d. d\<lparr>state_error := note_failures as None\<rparr>) u)"
    note ex = apply_rule_restarts [OF assms(5) True, of p E n u, folded v_def]
    obtain before onfail where b: "before = set_error p None \<or> before = go_next ()"
      "onfail = go_return None \<or> onfail = go_bind (handle_stop_deps E p) (\<lambda>_. go_return None)"
      "apply_rule n E p df as (Restart df) u = restart_later n E p before onfail v"
      using ex by (elim exE conjE) (rule that)
    have v: "def (heap v p) = Some ?df" "\<not> shutdown v" "cmds (heap v p) = []"
      "is_manual (heap v p) = is_manual (heap s p)" "\<forall>q. q \<noteq> p \<longrightarrow> heap v q = heap s q"
      using u by (auto simp: v_def)
    obtain w where w: "go_fun (restart_later n E p before onfail) v =
        andthen (start n E (Some p) (is_manual (heap v p)) w) (\<lambda>(_, u). Done (None, u))"
      "dstate (heap w p) = StateRestarting" "cmds (heap w p) = cmds (heap v p)"
      "\<forall>q. q \<noteq> p \<longrightarrow> heap w q = heap v q" "\<not> shutdown w"
      using restart_later_run [OF assms(1) v(2) b(1,2) v(1) u(2,3), of n] by blast
    have "monitor_cmds n E W p s = go_fun (restart_later n E p before onfail) v"
      using run b(3) by (simp add: go_fun_def)
    with w v have "monitor_cmds n E W p s =
        andthen (start n E (Some p) (is_manual (heap s p)) w) (\<lambda>(_, u). Done (None, u)) \<and>
      dstate (heap w p) = StateRestarting \<and> cmds (heap w p) = [] \<and> \<not> shutdown w \<and>
      (\<forall>q. q \<noteq> p \<longrightarrow> heap w q = heap s q)"
      by simp
    then show ?thesis using True by (simp only: if_True) blast
  qed
qed

section \<open>A service that is no longer needed\<close>

text \<open>
  C29. \<open>StopWhenUnneeded=\<close> stops a service one second after its start however many running services
  need it: the \<open>continue\<close> that is meant to wait on goes on with the loop over the services instead.
\<close>

theorem unneeded_stops_needed:
  assumes "quiet E" "def (heap s p) = Some df" "StopWhenUnneeded df" "dstate (heap s p) \<noteq> StateStopped"
    and "p \<notin> set (locks s)" "\<forall>k\<in>set needing_kinds. \<forall>(x, i)\<in>set (deps df k). \<exists>q. i = Some q \<and> q \<notin> set (locks s)"
  shows "monitor_needed (Suc n) E p s =
    go_bind (go_call (stop E True (Some p))) (\<lambda>_. go_next ()) (s\<lparr>ticks := ticks s + 1\<rparr>)"
proof -
  let ?s = "s\<lparr>ticks := ticks s + 1\<rparr>"
  have one: "look_one (x, Some q) ?s = Done (Next (), ?s)" if "q \<notin> set (locks s)" for x q
    using that by (simp add: look_one_def state_of_def go_bind_def take_lock_def)
  have loop: "go_for look_one ds ?s = Done (Next (), ?s)" if "\<forall>(x, i)\<in>set ds. \<exists>q. i = Some q \<and> q \<notin> set (locks s)" for ds
    using that
  proof (induction ds)
    case (Cons d ds)
    then obtain x q where "d = (x, Some q)" "q \<notin> set (locks s)" by (cases d) auto
    with Cons show ?case using one by (simp add: go_bind_next)
  qed simp
  have "look_at k p ?s = Done (Next (), ?s)" if "k \<in> set needing_kinds" for k
    using assms(2,6) that loop by (simp add: look_at_def go_bind_the_def)
  then have "go_for (\<lambda>k. look_at k p) ks ?s = Done (Next (), ?s)" if "set ks \<subseteq> set needing_kinds" for ks
    using that by (induction ks) (auto simp: go_bind_next)
  then have looks: "go_bind (go_for (\<lambda>k. look_at k p) needing_kinds) f ?s = f () ?s" for f :: "unit \<Rightarrow> unit go"
    by (intro go_bind_next) simp
  show ?thesis
    using assms by (simp add: yield_quiet state_of_def go_bind_assoc go_bind_lock go_bind_the_def looks [simplified])
qed

section \<open>Concrete runs\<close>

definition exit_with :: "int \<Rightarrow> waits" where
  "exit_with n = \<lparr>wait_status = (\<lambda>_ _. Some n), process_list = (\<lambda>_. Some []), tracked = (\<lambda>_ _. [])\<rparr>"

theorem monitor_policy_witness:
  "\<exists>s'. monitor_cmds 1 (calm_env 0) (exit_with 3) 0 (serving empty_def [Some 7]) = Done (None, s') \<and>
     dstate (heap s' 0) = StateStopped \<and> state_error (heap s' 0) = Some (ExitedWith 3)"
proof -
  let ?s = "serving empty_def [Some 7]"
  have "\<not> shutdown ?s" "plain_service 0 empty_def ?s"
    by (simp_all add: plain_service_def serving_def init_sys_def new_daemon_def empty_def_def forking_types_def)
  from monitor_policy [OF calm_quiet this refl refl, of "exit_with 3" 1 0] show ?thesis
    by (simp add: serving_def exit_with_def failure_def restarts_def empty_def_def failure_rules_def note_failures_def)
qed

theorem unneeded_stops_needed_witness:
  "monitor_needed 1 (calm_env 0) 0 (serving (put_dep RequiredBy ''b'' (Some 1) (empty_def\<lparr>StopWhenUnneeded := True\<rparr>)) []) =
   go_bind (go_call (stop (calm_env 0) True (Some 0))) (\<lambda>_. go_next ())
     ((serving (put_dep RequiredBy ''b'' (Some 1) (empty_def\<lparr>StopWhenUnneeded := True\<rparr>)) [])\<lparr>ticks := 1\<rparr>)"
proof -
  let ?d = "put_dep RequiredBy ''b'' (Some 1) (empty_def\<lparr>StopWhenUnneeded := True\<rparr>)"
  let ?s = "serving ?d []"
  have "def (heap ?s 0) = Some ?d" "StopWhenUnneeded ?d" "dstate (heap ?s 0) \<noteq> StateStopped" "0 \<notin> set (locks ?s)"
    "\<forall>k\<in>set needing_kinds. \<forall>(x, i)\<in>set (deps ?d k). \<exists>q. i = Some q \<and> q \<notin> set (locks ?s)"
    by (auto simp: serving_def init_sys_def new_daemon_def empty_def_def needing_kinds_def put_dep_def)
  from unneeded_stops_needed [OF calm_quiet this, of 0 0] show ?thesis
    by (simp add: serving_def init_sys_def)
qed

end
