(* ===== verification/ProcWait.thy ===== *)
theory ProcWait
  imports Prelude
begin

text \<open>
  The reaper of \<open>procwait/procwait.go\<close> and the calls that wait for it, as a step relation. Everything a
  goroutine does while it holds \<open>waits\<close> is one step; between the steps anything else may happen.

  \<^item> \<open>wtab\<close> and \<open>rtab\<close> are the maps \<open>waits.w\<close> and \<open>waits.run\<close>; a \<open>*proc\<close> is a number in \<open>procs\<close>, with
    its status and whether its lock is held for writing.
  \<^item> The kernel knows a process as running, as a zombie with its exit status, or not at all. Only a
    child of the init process (\<open>ours\<close>) can be waited for by the reaper; any other is reaped by its
    parent, or becomes a child of init when that dies.
  \<^item> \<open>pending\<close> are the answers of \<open>Wait4\<close> that a reaper has not handled yet: there may be several
    reapers, because \<open>FinalReap\<close> runs beside the one of \<open>Init\<close>.
  \<^item> \<open>exits\<close> and \<open>elsewhere\<close> only record what happened: who exited with what, and who was reaped by
    another process.
\<close>

section \<open>State\<close>

datatype kproc = Alive | Zombie int | Absent

record entry =
  ws :: int
  held :: bool

datatype wait_call = WIdle | WBlocked int nat | WDone int "int option"

datatype run_error = StartFailed | CmdNotFound | ExitStatus int

datatype run_call =
    RIdle
  | REntered                \<comment> \<open>registered in \<open>waits.run\<close>\<close>
  | RForked int             \<comment> \<open>in \<open>cmd.Start\<close>, the process exists, \<open>cmd.Process\<close> is still nil\<close>
  | RStarted
  | RBlocked nat
  | RDone run_error

record pw =
  kern :: "int \<Rightarrow> kproc"
  ours :: "int set"
  wtab :: "(int, nat) gomap"
  rtab :: "(nat, nat) gomap"
  process :: "nat \<Rightarrow> int option"
  procs :: "nat \<Rightarrow> entry"
  fresh :: nat
  pending :: "(int \<times> int) list"
  waiters :: "nat \<Rightarrow> wait_call"
  runners :: "nat \<Rightarrow> run_call"
  exits :: "(int \<times> int) set"
  elsewhere :: "int set"

definition pw_init :: pw where
  "pw_init = \<lparr>kern = (\<lambda>_. Absent), ours = {}, wtab = [], rtab = [], process = (\<lambda>_. None),
     procs = (\<lambda>_. \<lparr>ws = 0, held = False\<rparr>), fresh = 0, pending = [], waiters = (\<lambda>_. WIdle),
     runners = (\<lambda>_. RIdle), exits = {}, elsewhere = {}\<rparr>"

section \<open>Critical sections\<close>

text \<open>\<open>new(proc)\<close>, locked.\<close>

definition new_entry :: "pw \<Rightarrow> pw" where
  "new_entry s = s\<lparr>procs := (procs s)(fresh s := \<lparr>ws = 0, held = True\<rparr>), fresh := fresh s + 1\<rparr>"

text \<open>The reaper stores the status, releases the lock and forgets the entry; \<open>a.TryLock()\<close> fails on
  the lock that is held, so that \<open>a.Unlock()\<close> releases it.\<close>

definition release :: "int \<Rightarrow> nat \<Rightarrow> (nat \<Rightarrow> entry) \<Rightarrow> nat \<Rightarrow> entry" where
  "release c l ps = ps(l := \<lparr>ws = c, held = False\<rparr>)"

definition handle_wait :: "int \<Rightarrow> int \<Rightarrow> pw \<Rightarrow> pw" where
  "handle_wait p c s =
     (case map_of (wtab s) p of
        None \<Rightarrow> s
      | Some l \<Rightarrow> s\<lparr>procs := release c l (procs s), wtab := AList.delete p (wtab s)\<rparr>)"

definition handle_run :: "int \<Rightarrow> int \<Rightarrow> pw \<Rightarrow> pw" where
  "handle_run p c s =
     s\<lparr>procs := fold (release c) (map snd (filter (\<lambda>(a, _). process s a = Some p) (rtab s))) (procs s),
       rtab := filter (\<lambda>(a, _). process s a \<noteq> Some p) (rtab s)\<rparr>"

definition handle :: "int \<Rightarrow> int \<Rightarrow> pw \<Rightarrow> pw" where
  "handle p c s = handle_run p c (handle_wait p c (s\<lparr>pending := remove1 (p, c) (pending s)\<rparr>))"

text \<open>\<open>Wait\<close>, up to where it blocks or returns.\<close>

definition wait_enter :: "nat \<Rightarrow> int \<Rightarrow> pw \<Rightarrow> pw" where
  "wait_enter i p s =
     (case map_of (wtab s) p of
        Some l \<Rightarrow> s\<lparr>waiters := (waiters s)(i := WBlocked p l)\<rparr>
      | None \<Rightarrow>
          if kern s p = Absent then s\<lparr>waiters := (waiters s)(i := WDone p None)\<rparr>
          else (let l = fresh s; s = new_entry s
                in s\<lparr>wtab := AList.update p l (wtab s), waiters := (waiters s)(i := WBlocked p l)\<rparr>))"

definition run_enter :: "nat \<Rightarrow> pw \<Rightarrow> pw" where
  "run_enter a s =
     (let l = fresh s; s = new_entry s
      in s\<lparr>rtab := AList.update a l (rtab s), runners := (runners s)(a := REntered)\<rparr>)"

text \<open>\<open>waitCmd\<close>\<close>

definition run_lookup :: "nat \<Rightarrow> pw \<Rightarrow> pw" where
  "run_lookup a s =
     s\<lparr>runners := (runners s)(a := (case map_of (rtab s) a of None \<Rightarrow> RDone CmdNotFound | Some l \<Rightarrow> RBlocked l))\<rparr>"

section \<open>Steps\<close>

inductive pw_step :: "pw \<Rightarrow> pw \<Rightarrow> bool" where
  exit_process: "kern s p = Alive \<Longrightarrow> pw_step s (s\<lparr>kern := (kern s)(p := Zombie c), exits := insert (p, c) (exits s)\<rparr>)"
| other_fork: "kern s p = Absent \<Longrightarrow> pw_step s (s\<lparr>kern := (kern s)(p := Alive)\<rparr>)"
| adopt: "kern s p \<noteq> Absent \<Longrightarrow> pw_step s (s\<lparr>ours := insert p (ours s)\<rparr>)"
| other_reap: "kern s p = Zombie c \<Longrightarrow> p \<notin> ours s \<Longrightarrow>
    pw_step s (s\<lparr>kern := (kern s)(p := Absent), elsewhere := insert p (elsewhere s)\<rparr>)"
| wait4: "kern s p = Zombie c \<Longrightarrow> p \<in> ours s \<Longrightarrow>
    pw_step s (s\<lparr>kern := (kern s)(p := Absent), ours := ours s - {p}, pending := (p, c) # pending s\<rparr>)"
| handled: "(p, c) \<in> set (pending s) \<Longrightarrow> pw_step s (handle p c s)"
| wait_entered: "waiters s i = WIdle \<Longrightarrow> pw_step s (wait_enter i p s)"
| wait_woken: "waiters s i = WBlocked p l \<Longrightarrow> \<not> held (procs s l) \<Longrightarrow>
    pw_step s (s\<lparr>waiters := (waiters s)(i := WDone p (Some (ws (procs s l))))\<rparr>)"
| run_entered: "runners s a = RIdle \<Longrightarrow> pw_step s (run_enter a s)"
| run_failed: "runners s a = REntered \<Longrightarrow> pw_step s (s\<lparr>runners := (runners s)(a := RDone StartFailed)\<rparr>)"
| run_forked: "runners s a = REntered \<Longrightarrow> kern s p = Absent \<Longrightarrow>
    pw_step s (s\<lparr>kern := (kern s)(p := Alive), ours := insert p (ours s), runners := (runners s)(a := RForked p)\<rparr>)"
| run_assigned: "runners s a = RForked p \<Longrightarrow>
    pw_step s (s\<lparr>process := (process s)(a := Some p), runners := (runners s)(a := RStarted)\<rparr>)"
| run_looked_up: "runners s a = RStarted \<Longrightarrow> pw_step s (run_lookup a s)"
| run_woken: "runners s a = RBlocked l \<Longrightarrow> \<not> held (procs s l) \<Longrightarrow>
    pw_step s (s\<lparr>runners := (runners s)(a := RDone (ExitStatus (ws (procs s l))))\<rparr>)"

inductive_cases pw_stepE: "pw_step s t"

section \<open>The tables\<close>

text \<open>Every entry of the two maps is locked, so that the reaper never unlocks an unlocked lock, and no
  entry has two owners.\<close>

definition entries :: "('k, nat) gomap \<Rightarrow> nat set" where
  "entries m = set (map snd m)"

definition table_ok :: "('k, nat) gomap \<Rightarrow> bool" where
  "table_ok m = (gm_ok m \<and> distinct (map snd m))"

definition tables_ok :: "pw \<Rightarrow> bool" where
  "tables_ok s \<longleftrightarrow> table_ok (wtab s) \<and> table_ok (rtab s) \<and> entries (wtab s) \<inter> entries (rtab s) = {} \<and>
     (\<forall>l\<in>entries (wtab s) \<union> entries (rtab s). l < fresh s \<and> held (procs s l))"

text \<open>A caller of \<open>Wait\<close> that is blocked is in the table as long as its entry is locked; once it is
  released it carries a status that the process exited with.\<close>

definition waiters_ok :: "pw \<Rightarrow> bool" where
  "waiters_ok s \<longleftrightarrow>
     (\<forall>i p l. waiters s i = WBlocked p l \<longrightarrow> l < fresh s \<and>
        (if held (procs s l) then map_of (wtab s) p = Some l else (p, ws (procs s l)) \<in> exits s)) \<and>
     (\<forall>i p c. waiters s i = WDone p (Some c) \<longrightarrow> (p, c) \<in> exits s)"

text \<open>A process in the table is still there, or its status is being handled, or another process has
  reaped it.\<close>

definition kernel_ok :: "pw \<Rightarrow> bool" where
  "kernel_ok s \<longleftrightarrow>
     (\<forall>p l. map_of (wtab s) p = Some l \<longrightarrow> kern s p \<noteq> Absent \<or> p \<in> fst ` set (pending s) \<or> p \<in> elsewhere s) \<and>
     set (pending s) \<subseteq> exits s \<and> (\<forall>p c. kern s p = Zombie c \<longrightarrow> (p, c) \<in> exits s)"

text \<open>A command enters the table once.\<close>

definition runners_ok :: "pw \<Rightarrow> bool" where
  "runners_ok s \<longleftrightarrow> (\<forall>a. runners s a = RIdle \<longrightarrow> map_of (rtab s) a = None)"

definition pw_inv :: "pw \<Rightarrow> bool" where
  "pw_inv s \<longleftrightarrow> tables_ok s \<and> waiters_ok s \<and> kernel_ok s \<and> runners_ok s"

lemma inv_init: "pw_inv pw_init"
  by (simp add: pw_inv_def tables_ok_def table_ok_def entries_def waiters_ok_def kernel_ok_def runners_ok_def pw_init_def)

text \<open>Steps that leave the tables and the entries alone.\<close>

lemma inv_plain:
  assumes "pw_inv s" "wtab t = wtab s" "rtab t = rtab s" "procs t = procs s" "fresh t = fresh s"
    and "waiters_ok t" "kernel_ok t" "runners_ok t"
  shows "pw_inv t"
  using assms by (simp add: pw_inv_def tables_ok_def)

lemma entry_of: "map_of m k = Some l \<Longrightarrow> l \<in> entries m"
  by (force simp: entries_def dest: map_of_SomeD)

lemma update_new: "map_of m k = None \<Longrightarrow> AList.update k l m = m @ [(k, l)]"
  by (induction m) auto

lemma entries_new [simp]: "entries (m @ [(k, l)]) = insert l (entries m)"
  by (auto simp: entries_def)

lemma table_new: "table_ok m \<Longrightarrow> map_of m k = None \<Longrightarrow> l \<notin> entries m \<Longrightarrow> table_ok (m @ [(k, l)])"
  by (simp add: table_ok_def entries_def map_of_None_keys)

lemma table_delete:
  "table_ok m \<Longrightarrow> map_of m k = Some l \<Longrightarrow>
   entries (AList.delete k m) = entries m - {l} \<and> table_ok (AList.delete k m)"
proof (induction m)
  case (Cons x m)
  obtain k' l' where x: "x = (k', l')" by force
  from Cons.prems(1) have ok: "table_ok m" "k' \<notin> set (gm_keys m)" "l' \<notin> entries m"
    by (simp_all add: table_ok_def entries_def x)
  show ?case
  proof (cases "k' = k")
    case True
    with ok(2) have "AList.delete k m = m" by (intro delete_id) simp
    with True Cons.prems(2) ok x show ?thesis by (auto simp: entries_def)
  next
    case False
    with Cons.prems(2) x have m: "map_of m k = Some l" by simp
    with entry_of ok(3) have "l \<noteq> l'" by metis
    moreover have "entries (AList.delete k m) = entries m - {l}" "table_ok (AList.delete k m)"
      using Cons.IH [OF ok(1) m] by simp_all
    moreover have "k' \<notin> set (gm_keys (AList.delete k m))"
      using ok(2) unfolding map_of_None_keys [symmetric] delete_conv' by simp
    ultimately show ?thesis using False ok x
      by (auto simp: table_ok_def entries_def)
  qed
qed (simp add: entries_def)

lemma release_fold:
  "fold (release c) ls ps l = (if l \<in> set ls then \<lparr>ws = c, held = False\<rparr> else ps l)"
  by (induction ls arbitrary: ps) (auto simp: release_def)

lemma new_entry_simps [simp]:
  "wtab (new_entry s) = wtab s" "rtab (new_entry s) = rtab s" "fresh (new_entry s) = fresh s + 1"
  "kern (new_entry s) = kern s" "waiters (new_entry s) = waiters s" "runners (new_entry s) = runners s"
  "exits (new_entry s) = exits s" "pending (new_entry s) = pending s" "elsewhere (new_entry s) = elsewhere s"
  "procs (new_entry s) l = (if l = fresh s then \<lparr>ws = 0, held = True\<rparr> else procs s l)"
  by (simp_all add: new_entry_def)

lemma inv_wait_enter:
  assumes "pw_inv s" "waiters s i = WIdle"
  shows "pw_inv (wait_enter i p s)"
proof (cases "map_of (wtab s) p")
  case (Some l)
  then have "l < fresh s" "held (procs s l)"
    using assms(1) entry_of [OF Some] by (auto simp: pw_inv_def tables_ok_def)
  with Some assms(1) show ?thesis
    unfolding wait_enter_def
    by (intro inv_plain [OF assms(1)]) (auto simp: pw_inv_def waiters_ok_def kernel_ok_def runners_ok_def)
next
  case None
  show ?thesis
  proof (cases "kern s p = Absent")
    case True
    with None assms(1) show ?thesis
      unfolding wait_enter_def
      by (intro inv_plain [OF assms(1)]) (auto simp: pw_inv_def waiters_ok_def kernel_ok_def runners_ok_def)
  next
    case False
    let ?t = "wait_enter i p s"
    have t: "?t = (new_entry s)\<lparr>wtab := wtab s @ [(p, fresh s)], waiters := (waiters s)(i := WBlocked p (fresh s))\<rparr>"
      using None False by (simp add: wait_enter_def Let_def update_new)
    have ok: "tables_ok s" using assms(1) by (simp add: pw_inv_def)
    have new: "fresh s \<notin> entries (wtab s)" "fresh s \<notin> entries (rtab s)"
      using ok by (auto simp: tables_ok_def)
    have "tables_ok ?t"
      using ok new table_new [OF _ None new(1)] unfolding t tables_ok_def by (auto simp: less_Suc_eq)
    have look: "map_of (wtab ?t) q = (if q = p then Some (fresh s) else map_of (wtab s) q)" for q
      using None unfolding t by (auto simp: map_add_def split: option.split)
    have w: "waiters_ok s" "kernel_ok s" using assms(1) by (simp_all add: pw_inv_def)
    have same: "exits ?t = exits s" "fresh ?t = fresh s + 1" "waiters ?t = (waiters s)(i := WBlocked p (fresh s))"
      "procs ?t l = (if l = fresh s then \<lparr>ws = 0, held = True\<rparr> else procs s l)" for l
      by (simp_all add: t)
    have "waiters_ok ?t"
      unfolding waiters_ok_def
    proof (intro conjI allI impI)
      fix j q l assume "waiters ?t j = WBlocked q l"
      then have "(q = p \<and> l = fresh s) \<or> waiters s j = WBlocked q l"
        by (cases "j = i") (simp_all add: same(3))
      then consider "q = p" "l = fresh s" | "waiters s j = WBlocked q l" by blast
      then have "l < fresh ?t \<and> (if held (procs ?t l) then map_of (wtab ?t) q = Some l else (q, ws (procs ?t l)) \<in> exits ?t)"
      proof cases
        case 2
        then have l: "l < fresh s" "if held (procs s l) then map_of (wtab s) q = Some l else (q, ws (procs s l)) \<in> exits s"
          using w(1) by (simp_all add: waiters_ok_def)
        then have "held (procs s l) \<Longrightarrow> q \<noteq> p" using None by auto
        with l show ?thesis by (auto simp: same look)
      qed (simp add: same look)
      then show "l < fresh ?t" "if held (procs ?t l) then map_of (wtab ?t) q = Some l else (q, ws (procs ?t l)) \<in> exits ?t"
        by simp_all
    next
      fix j q c assume "waiters ?t j = WDone q (Some c)"
      then have "waiters s j = WDone q (Some c)" by (cases "j = i") (simp_all add: same(3))
      then show "(q, c) \<in> exits ?t" using w(1) by (simp add: waiters_ok_def same)
    qed
    moreover have "kernel_ok ?t"
      using w(2) False look unfolding kernel_ok_def by (simp add: t)
    ultimately show ?thesis
      using assms(1) \<open>tables_ok ?t\<close> unfolding pw_inv_def runners_ok_def by (simp add: t)
  qed
qed

lemma inv_run_enter:
  assumes "pw_inv s" "runners s a = RIdle"
  shows "pw_inv (run_enter a s)"
proof -
  let ?t = "run_enter a s"
  have None: "map_of (rtab s) a = None" using assms by (simp add: pw_inv_def runners_ok_def)
  then have t: "?t = (new_entry s)\<lparr>rtab := rtab s @ [(a, fresh s)], runners := (runners s)(a := REntered)\<rparr>"
    by (simp add: run_enter_def Let_def update_new)
  have ok: "tables_ok s" using assms(1) by (simp add: pw_inv_def)
  have new: "fresh s \<notin> entries (wtab s)" "fresh s \<notin> entries (rtab s)"
    using ok by (auto simp: tables_ok_def)
  have "tables_ok ?t"
    using ok new table_new [OF _ None new(2)] unfolding t tables_ok_def by (auto simp: less_Suc_eq)
  moreover have "waiters_ok ?t"
  proof -
    have "waiters_ok s" using assms(1) by (simp add: pw_inv_def)
    then show ?thesis unfolding t waiters_ok_def by (simp add: less_Suc_eq) blast
  qed
  moreover have "kernel_ok ?t"
    using assms(1) unfolding t pw_inv_def kernel_ok_def by auto
  moreover have "runners_ok ?t"
    using assms(1) None unfolding t pw_inv_def runners_ok_def by (auto simp: map_add_def split: option.splits)
  ultimately show ?thesis by (simp add: pw_inv_def)
qed

lemma table_inj: "table_ok m \<Longrightarrow> map_of m k = Some l \<Longrightarrow> map_of m k' = Some l \<Longrightarrow> k = k'"
proof -
  assume "table_ok m" "map_of m k = Some l" "map_of m k' = Some l"
  then have "inj_on snd (set m)" "(k, l) \<in> set m" "(k', l) \<in> set m"
    by (auto simp: table_ok_def distinct_map dest: map_of_SomeD)
  then show "k = k'" by (metis Pair_inject inj_onD snd_conv)
qed

lemma table_filter:
  "table_ok m \<Longrightarrow> table_ok (filter P m) \<and> entries (filter P m) \<subseteq> entries m \<and>
     entries (filter P m) \<inter> entries (filter (\<lambda>x. \<not> P x) m) = {}"
  by (induction m) (auto simp: table_ok_def entries_def)

text \<open>What the reaper does with an answer.\<close>

definition told :: "int \<Rightarrow> pw \<Rightarrow> nat set" where
  "told p s = {l. map_of (wtab s) p = Some l} \<union> entries (filter (\<lambda>(a, _). process s a = Some p) (rtab s))"

lemma handle_simps:
  "wtab (handle p c s) = AList.delete p (wtab s)"
  "rtab (handle p c s) = filter (\<lambda>(a, _). process s a \<noteq> Some p) (rtab s)"
  "procs (handle p c s) l = (if l \<in> told p s then \<lparr>ws = c, held = False\<rparr> else procs s l)"
  "fresh (handle p c s) = fresh s" "waiters (handle p c s) = waiters s" "runners (handle p c s) = runners s"
  "exits (handle p c s) = exits s" "kern (handle p c s) = kern s" "elsewhere (handle p c s) = elsewhere s"
  "pending (handle p c s) = remove1 (p, c) (pending s)" "process (handle p c s) = process s"
proof -
  have d: "map_of (wtab s) p = None \<Longrightarrow> AList.delete p (wtab s) = wtab s"
    by (intro delete_id) (simp add: map_of_eq_None_iff)
  show "wtab (handle p c s) = AList.delete p (wtab s)"
    by (simp add: handle_def handle_run_def handle_wait_def d split: option.split)
  show "procs (handle p c s) l = (if l \<in> told p s then \<lparr>ws = c, held = False\<rparr> else procs s l)"
    by (auto simp: handle_def handle_run_def handle_wait_def release_fold told_def entries_def release_def
        split: option.split)
qed (simp_all add: handle_def handle_run_def handle_wait_def split: option.split)

lemma inv_handle:
  assumes "pw_inv s" "(p, c) \<in> set (pending s)"
  shows "pw_inv (handle p c s)"
proof -
  let ?t = "handle p c s" and ?P = "\<lambda>(a, _). process s a = Some p"
  have ok: "tables_ok s" "waiters_ok s" "kernel_ok s" "runners_ok s" using assms(1) by (simp_all add: pw_inv_def)
  then have tb: "table_ok (wtab s)" "table_ok (rtab s)" "entries (wtab s) \<inter> entries (rtab s) = {}"
    "\<And>l. l \<in> entries (wtab s) \<union> entries (rtab s) \<Longrightarrow> l < fresh s \<and> held (procs s l)"
    by (auto simp: tables_ok_def)
  have rt: "rtab ?t = filter (\<lambda>x. \<not> ?P x) (rtab s)"
    unfolding handle_simps by (rule filter_cong) auto
  note f = table_filter [OF tb(2), of ?P] table_filter [OF tb(2), of "\<lambda>x. \<not> ?P x"]
  have told_run: "l \<in> told p s \<longleftrightarrow> map_of (wtab s) p = Some l \<or> l \<in> entries (filter ?P (rtab s))" for l
    by (auto simp: told_def)
  have wt: "table_ok (wtab ?t)" "entries (wtab ?t) = entries (wtab s) - {l. map_of (wtab s) p = Some l}"
  proof -
    have "table_ok (wtab ?t) \<and> entries (wtab ?t) = entries (wtab s) - {l. map_of (wtab s) p = Some l}"
    proof (cases "map_of (wtab s) p")
      case None
      then have "AList.delete p (wtab s) = wtab s" by (intro delete_id) (simp add: map_of_eq_None_iff)
      with None tb(1) show ?thesis by (simp add: handle_simps)
    next
      case (Some l)
      with table_delete [OF tb(1) Some] show ?thesis by (simp add: handle_simps)
    qed
    then show "table_ok (wtab ?t)" "entries (wtab ?t) = entries (wtab s) - {l. map_of (wtab s) p = Some l}" by simp_all
  qed
  have untold: "l \<notin> told p s" if "l \<in> entries (wtab ?t) \<union> entries (rtab ?t)" for l
  proof
    assume l: "l \<in> told p s"
    from that show False
    proof
      assume "l \<in> entries (wtab ?t)"
      then have "l \<in> entries (wtab s)" "map_of (wtab s) p \<noteq> Some l" unfolding wt(2) by simp_all
      with l f(1) tb(3) show False unfolding told_run by blast
    next
      assume "l \<in> entries (rtab ?t)"
      then have "l \<in> entries (rtab s)" "l \<notin> entries (filter ?P (rtab s))" using f unfolding rt by blast+
      with l tb(3) entry_of [of "wtab s" p l] show False unfolding told_run by auto
    qed
  qed
  have "tables_ok ?t"
    unfolding tables_ok_def
  proof (intro conjI ballI)
    show "table_ok (rtab ?t)" using f(2) by (simp add: rt)
    show "entries (wtab ?t) \<inter> entries (rtab ?t) = {}" using wt(2) f(2) tb(3) unfolding rt by blast
    fix l assume l: "l \<in> entries (wtab ?t) \<union> entries (rtab ?t)"
    then have "l \<in> entries (wtab s) \<union> entries (rtab s)" using wt(2) f(2) unfolding rt by blast
    with tb(4) untold [OF l] show "l < fresh ?t" "held (procs ?t l)" by (simp_all add: handle_simps)
  qed (rule wt(1))
  moreover have "waiters_ok ?t"
    unfolding waiters_ok_def
  proof (intro conjI allI impI)
    fix j q l assume "waiters ?t j = WBlocked q l"
    then have w: "l < fresh s" "if held (procs s l) then map_of (wtab s) q = Some l else (q, ws (procs s l)) \<in> exits s"
      using ok(2) by (simp_all add: waiters_ok_def handle_simps)
    show "l < fresh ?t" using w(1) by (simp add: handle_simps)
    show "if held (procs ?t l) then map_of (wtab ?t) q = Some l else (q, ws (procs ?t l)) \<in> exits ?t"
    proof (cases "l \<in> told p s")
      case False
      have procs: "procs ?t l = procs s l" "exits ?t = exits s" using False by (simp_all add: handle_simps)
      show ?thesis
      proof (cases "held (procs s l)")
        case True
        then have "map_of (wtab s) q = Some l" using w(2) by simp
        moreover from this have "q \<noteq> p" using False unfolding told_run by auto
        ultimately have "map_of (wtab ?t) q = Some l" by (simp add: handle_simps delete_conv')
        then show ?thesis using True procs by simp
      next
        case False
        then show ?thesis using w(2) procs by simp
      qed
    next
      case True
      then have "l \<in> entries (wtab s) \<union> entries (rtab s)" using entry_of [of "wtab s" p l] f(1) unfolding told_run by auto
      then have q: "map_of (wtab s) q = Some l" using tb(4) w(2) by simp
      then have "map_of (wtab s) p = Some l" using True entry_of [OF q] tb(3) f(1) unfolding told_run by auto
      then have "q = p" using q table_inj [OF tb(1)] by blast
      then show ?thesis using True assms(2) ok(3) by (auto simp: handle_simps kernel_ok_def)
    qed
  next
    fix j q d assume "waiters ?t j = WDone q (Some d)"
    then show "(q, d) \<in> exits ?t" using ok(2) by (simp add: waiters_ok_def handle_simps)
  qed
  moreover have "kernel_ok ?t"
    unfolding kernel_ok_def
  proof (intro conjI allI impI)
    fix q l assume "map_of (wtab ?t) q = Some l"
    then have q: "q \<noteq> p" "map_of (wtab s) q = Some l" by (auto simp: handle_simps delete_conv' split: if_splits)
    then have "kern s q \<noteq> Absent \<or> q \<in> fst ` set (pending s) \<or> q \<in> elsewhere s"
      using ok(3) by (auto simp: kernel_ok_def)
    moreover have "q \<in> fst ` set (remove1 (p, c) (pending s))" if pend: "q \<in> fst ` set (pending s)"
    proof -
      obtain d where "(q, d) \<in> set (pending s)" using pend by force
      then have "(q, d) \<in> set (remove1 (p, c) (pending s))" using q(1) by (simp add: in_set_remove1)
      then show ?thesis by force
    qed
    ultimately show "kern ?t q \<noteq> Absent \<or> q \<in> fst ` set (pending ?t) \<or> q \<in> elsewhere ?t"
      by (auto simp: handle_simps)
  next
    show "set (pending ?t) \<subseteq> exits ?t"
      using ok(3) set_remove1_subset by (fastforce simp: handle_simps kernel_ok_def)
  next
    fix q d assume "kern ?t q = Zombie d"
    then show "(q, d) \<in> exits ?t" using ok(3) by (simp add: handle_simps kernel_ok_def)
  qed
  moreover have "runners_ok ?t"
    using ok(4) by (auto simp: runners_ok_def handle_simps map_of_eq_None_iff)
  ultimately show ?thesis by (simp add: pw_inv_def)
qed

lemma inv_step: "pw_step s t \<Longrightarrow> pw_inv s \<Longrightarrow> pw_inv t"
proof (induction rule: pw_step.induct)
  case (handled p c s)
  then show ?case by (intro inv_handle)
next
  case (wait_entered s i p)
  then show ?case by (intro inv_wait_enter)
next
  case (run_entered s a)
  then show ?case by (intro inv_run_enter)
next
  case (wait_woken s i p l)
  then show ?case
    by (intro inv_plain [OF wait_woken(3)]) (auto simp: pw_inv_def waiters_ok_def kernel_ok_def runners_ok_def)
next
  case (run_looked_up s a)
  then show ?case
    by (intro inv_plain [OF run_looked_up(2)])
      (auto simp: pw_inv_def waiters_ok_def kernel_ok_def runners_ok_def run_lookup_def split: option.split)
next
  case (wait4 s p c)
  then show ?case
    by (intro inv_plain [OF wait4(3)]) (auto simp: pw_inv_def waiters_ok_def kernel_ok_def runners_ok_def)
qed (auto simp: pw_inv_def tables_ok_def waiters_ok_def kernel_ok_def runners_ok_def)

interpretation reaper: transition_system "\<lambda>s. s = pw_init" pw_step pw_inv
  by unfold_locales (auto simp: inv_init intro: inv_step)

section \<open>\<open>Wait\<close> is sound\<close>

text \<open>
  C8. No wake-up of \<open>Wait\<close> is lost, whatever the order of the exits, the reapers and the calls: a caller
  that is blocked on a locked entry is in the table, and its process is still there to be reaped, or
  a reaper is about to handle it, or another process has reaped it. A status that \<open>Wait\<close> returns is
  one that the process exited with, and the reaper never unlocks a lock that is not held.
\<close>

theorem wait_not_lost:
  assumes "pw_step\<^sup>*\<^sup>* pw_init s"
  shows "(\<forall>i p l. waiters s i = WBlocked p l \<longrightarrow> held (procs s l) \<longrightarrow>
      map_of (wtab s) p = Some l \<and> (kern s p \<noteq> Absent \<or> p \<in> fst ` set (pending s) \<or> p \<in> elsewhere s)) \<and>
    (\<forall>i p c. waiters s i = WDone p (Some c) \<longrightarrow> (p, c) \<in> exits s) \<and>
    (\<forall>p l. map_of (wtab s) p = Some l \<longrightarrow> held (procs s l)) \<and>
    (\<forall>a l. map_of (rtab s) a = Some l \<longrightarrow> held (procs s l))"
proof (intro conjI allI impI)
  have "pw_inv s" using reaper.inv_reachable [OF refl assms] .
  then have ok: "tables_ok s" "waiters_ok s" "kernel_ok s" by (simp_all add: pw_inv_def)
  fix i p l
  show "map_of (wtab s) p = Some l" if "waiters s i = WBlocked p l" "held (procs s l)"
    using ok(2) that by (auto simp: waiters_ok_def)
  then show "kern s p \<noteq> Absent \<or> p \<in> fst ` set (pending s) \<or> p \<in> elsewhere s"
    if "waiters s i = WBlocked p l" "held (procs s l)"
    using ok(3) that by (simp add: kernel_ok_def)
  show "(p, c) \<in> exits s" if "waiters s i = WDone p (Some c)" for c
    using ok(2) that by (simp add: waiters_ok_def)
  show "held (procs s l)" if "map_of (wtab s) p = Some l"
    using ok(1) entry_of [OF that] by (simp add: tables_ok_def)
  show "held (procs s l)" if "map_of (rtab s) a = Some l" for a
    using ok(1) entry_of [OF that] by (simp add: tables_ok_def)
qed

text \<open>The process is a zombie that has not been reaped, and its waiter is asleep.\<close>

definition asleep :: pw where
  "asleep = pw_init\<lparr>kern := (\<lambda>_. Absent)(7 := Zombie 3), wtab := [(7, 0)],
     procs := (\<lambda>_. \<lparr>ws = 0, held = False\<rparr>)(0 := \<lparr>ws = 0, held = True\<rparr>), fresh := 1,
     waiters := (\<lambda>_. WIdle)(0 := WBlocked 7 0), exits := {(7, 3)}\<rparr>"

lemma asleep_reachable: "pw_step\<^sup>*\<^sup>* pw_init asleep"
proof -
  define s1 where "s1 = pw_init\<lparr>kern := (kern pw_init)(7 := Alive)\<rparr>"
  define s2 where "s2 = wait_enter 0 7 s1"
  define s3 where "s3 = s2\<lparr>kern := (kern s2)(7 := Zombie 3), exits := insert (7, 3) (exits s2)\<rparr>"
  note s3 = s1_def s2_def s3_def wait_enter_def Let_def pw_init_def new_entry_def
  have "pw_step pw_init s1" unfolding s1_def by (rule other_fork) (simp add: pw_init_def)
  moreover have "pw_step s1 s2" unfolding s2_def by (rule wait_entered) (simp add: s3)
  moreover have "pw_step s2 s3" unfolding s3_def by (rule exit_process) (simp add: s3)
  moreover have "s3 = asleep" by (simp add: s3 asleep_def)
  ultimately show ?thesis by (simp add: converse_rtranclp_into_rtranclp)
qed

lemma wait_not_lost_witness:
  "waiters asleep 0 = WBlocked 7 0 \<and> held (procs asleep 0) \<and> map_of (wtab asleep) 7 = Some 0 \<and>
   7 \<in> {p. kern asleep p = Zombie 3} \<union> fst ` set (pending asleep) \<union> elsewhere asleep"
proof -
  have "waiters asleep 0 = WBlocked 7 0" "held (procs asleep 0)" "kern asleep 7 = Zombie 3" by (simp_all add: asleep_def)
  with wait_not_lost [OF asleep_reachable] show ?thesis by blast
qed

section \<open>\<open>Wait\<close> is answered\<close>

text \<open>
  A run of the system in which every goroutine goes on: a reaper handles a status that it has (weak
  fairness of \<open>handled\<close>), and a caller whose lock is free takes it (of \<open>wait_woken\<close>). Between these
  anything may happen, and nothing for any time.
\<close>

definition fair_run :: "(nat \<Rightarrow> pw) \<Rightarrow> bool" where
  "fair_run r \<longleftrightarrow> pw_step\<^sup>*\<^sup>* pw_init (r 0) \<and>
     (\<forall>n. r (Suc n) = r n \<or> pw_step (r n) (r (Suc n))) \<and>
     (\<forall>n p c. (p, c) \<in> set (pending (r n)) \<longrightarrow> (\<exists>m\<ge>n. (p, c) \<notin> set (pending (r m)))) \<and>
     (\<forall>n i p l. waiters (r n) i = WBlocked p l \<and> \<not> held (procs (r n) l) \<longrightarrow>
        (\<exists>m\<ge>n. waiters (r m) i \<noteq> WBlocked p l))"

lemma fair_run_inv: "fair_run r \<Longrightarrow> pw_inv (r n)"
proof (induction n)
  case 0
  then show ?case using reaper.inv_reachable [OF refl, of "r 0"] by (simp add: fair_run_def)
next
  case (Suc n)
  then have "pw_inv (r n)" "r (Suc n) = r n \<or> pw_step (r n) (r (Suc n))" by (simp_all add: fair_run_def)
  then show ?case using inv_step by auto
qed

lemma blocked_entry: "pw_inv s \<Longrightarrow> waiters s i = WBlocked p l \<Longrightarrow> l < fresh s"
  by (simp add: pw_inv_def waiters_ok_def)

text \<open>A lock that is free stays free, until its waiter has the status.\<close>

lemma released_step:
  assumes "pw_step s t" "pw_inv s" "waiters s i = WBlocked p l" "\<not> held (procs s l)"
  shows "(waiters t i = WBlocked p l \<and> \<not> held (procs t l)) \<or> (\<exists>d. waiters t i = WDone p (Some d))"
  using assms
proof (induction rule: pw_step.induct)
  case (wait_entered s j q)
  then have "j \<noteq> i" "l < fresh s" using blocked_entry by auto
  with wait_entered show ?case by (simp add: wait_enter_def Let_def split: option.split)
next
  case (run_entered s a)
  then have "l < fresh s" using blocked_entry by auto
  with run_entered show ?case by (simp add: run_enter_def Let_def)
next
  case (wait_woken s j q k)
  then show ?case by (cases "j = i") auto
qed (simp_all add: handle_simps run_lookup_def)

text \<open>A status that a reaper has is not lost before the lock is free.\<close>

lemma pending_step:
  assumes "pw_step s t" "pw_inv s" "waiters s i = WBlocked p l" "held (procs s l)" "(p, c) \<in> set (pending s)"
  shows "waiters t i = WBlocked p l \<and> (held (procs t l) \<longrightarrow> (p, c) \<in> set (pending t))"
  using assms
proof (induction rule: pw_step.induct)
  case (handled q d s)
  show ?case
  proof (cases "q = p")
    case True
    have "map_of (wtab s) p = Some l" using handled by (auto simp: pw_inv_def waiters_ok_def)
    with True have "\<not> held (procs (handle q d s) l)" by (simp add: handle_simps told_def)
    with handled show ?thesis by (simp add: handle_simps)
  next
    case False
    with handled show ?thesis by (simp add: handle_simps in_set_remove1)
  qed
next
  case (wait_entered s j q)
  then have "j \<noteq> i" by auto
  with wait_entered show ?case by (simp add: wait_enter_def Let_def split: option.split)
next
  case (wait_woken s j q k)
  then have "j \<noteq> i" by auto
  with wait_woken show ?case by simp
qed (simp_all add: run_lookup_def run_enter_def Let_def)

text \<open>
  C9. A caller of \<open>Wait\<close> is answered: in every fair run, a caller that sleeps at a time when a reaper has
  taken a status of its process from the kernel returns later, with a status that the process exited
  with, whatever else is started, exits or is waited for meanwhile.
\<close>

theorem wait_is_answered:
  assumes "fair_run r" "waiters (r n) i = WBlocked p l" "(p, c) \<in> set (pending (r n))"
  shows "\<exists>m\<ge>n. \<exists>d. waiters (r m) i = WDone p (Some d) \<and> (p, d) \<in> exits (r m)"
proof -
  note inv = fair_run_inv [OF assms(1)]
  have step: "r (Suc m) = r m \<or> pw_step (r m) (r (Suc m))" for m using assms(1) by (simp add: fair_run_def)
  have "\<exists>m\<ge>n. waiters (r m) i = WBlocked p l \<and> \<not> held (procs (r m) l)"
  proof (rule ccontr)
    assume no: "\<not> ?thesis"
    have "waiters (r m) i = WBlocked p l \<and> (p, c) \<in> set (pending (r m))" if "n \<le> m" for m
      using that
    proof (induction m rule: dec_induct)
      case (step m)
      then have "held (procs (r m) l)" using no by blast
      with step have "waiters (r (Suc m)) i = WBlocked p l \<and>
          (held (procs (r (Suc m)) l) \<longrightarrow> (p, c) \<in> set (pending (r (Suc m))))"
        using pending_step [OF _ inv, of m "r (Suc m)" i p l c] \<open>\<And>m. r (Suc m) = r m \<or> pw_step (r m) (r (Suc m))\<close> by metis
      with no step(1) show ?case by (meson le_SucI)
    qed (use assms in simp)
    moreover obtain m where "n \<le> m" "(p, c) \<notin> set (pending (r m))"
      using assms(1,3) unfolding fair_run_def by blast
    ultimately show False by blast
  qed
  then obtain k where k: "n \<le> k" "waiters (r k) i = WBlocked p l" "\<not> held (procs (r k) l)" by blast
  have "\<exists>m\<ge>k. \<exists>d. waiters (r m) i = WDone p (Some d)"
  proof (rule ccontr)
    assume no: "\<not> ?thesis"
    have "waiters (r m) i = WBlocked p l \<and> \<not> held (procs (r m) l)" if "k \<le> m" for m
      using that
    proof (induction m rule: dec_induct)
      case (step m)
      have "r (Suc m) = r m \<or> (waiters (r (Suc m)) i = WBlocked p l \<and> \<not> held (procs (r (Suc m)) l)) \<or>
          (\<exists>d. waiters (r (Suc m)) i = WDone p (Some d))"
        using released_step [OF _ inv, of m "r (Suc m)" i p l] \<open>\<And>m. r (Suc m) = r m \<or> pw_step (r m) (r (Suc m))\<close> step(3) by metis
      with no step show ?case by (metis le_SucI)
    qed (use k in simp)
    moreover obtain m where "k \<le> m" "waiters (r m) i \<noteq> WBlocked p l"
      using assms(1) k(2,3) unfolding fair_run_def by blast
    ultimately show False by blast
  qed
  then obtain m d where m: "k \<le> m" "waiters (r m) i = WDone p (Some d)" by blast
  moreover have "(p, d) \<in> exits (r m)" using inv [of m] m(2) by (simp add: pw_inv_def waiters_ok_def)
  ultimately show ?thesis using k(1) by (meson le_trans)
qed

text \<open>The reaper has waited for the process and not handled its status yet.\<close>

definition reaped :: pw where
  "reaped = asleep\<lparr>ours := {}, kern := (\<lambda>_. Absent), pending := [(7, 3)]\<rparr>"

lemma reaped_reachable: "pw_step\<^sup>*\<^sup>* pw_init reaped"
proof -
  define s1 where "s1 = asleep\<lparr>ours := insert 7 (ours asleep)\<rparr>"
  define s2 where "s2 = s1\<lparr>kern := (kern s1)(7 := Absent), ours := ours s1 - {7}, pending := (7, 3) # pending s1\<rparr>"
  note s2 = s1_def s2_def asleep_def pw_init_def
  have "pw_step asleep s1" unfolding s1_def by (rule adopt) (simp add: asleep_def)
  moreover have "pw_step s1 s2" unfolding s2_def by (rule wait4) (simp_all add: s2)
  moreover have "s2 = reaped" by (simp add: s2 reaped_def fun_eq_iff)
  ultimately show ?thesis using asleep_reachable by (meson rtranclp.rtrancl_into_rtrancl)
qed

text \<open>The run in which the reaper handles the status and the caller returns.\<close>

definition answered :: "nat \<Rightarrow> pw" where
  "answered n = (if n = 0 then reaped else
     let t = handle 7 3 reaped in
     if n = 1 then t else t\<lparr>waiters := (waiters t)(0 := WDone 7 (Some (ws (procs t 0))))\<rparr>)"

lemma answered_fair: "fair_run answered"
  unfolding fair_run_def
proof (intro conjI allI impI)
  have r: "waiters reaped = (\<lambda>_. WIdle)(0 := WBlocked 7 0)" "held (procs reaped 0)" "pending reaped = [(7, 3)]"
    by (simp_all add: reaped_def asleep_def pw_init_def)
  have t: "\<not> held (procs (handle 7 3 reaped) 0)" "waiters (handle 7 3 reaped) 0 = WBlocked 7 0"
    by (simp_all add: handle_simps told_def reaped_def asleep_def)
  show "pw_step\<^sup>*\<^sup>* pw_init (answered 0)" using reaped_reachable by (simp add: answered_def)
  fix n :: nat
  consider "n = 0" | "n = 1" | "2 \<le> n" by linarith
  then show "answered (Suc n) = answered n \<or> pw_step (answered n) (answered (Suc n))"
  proof cases
    case 1
    have "pw_step reaped (handle 7 3 reaped)" by (rule handled) (simp add: r)
    with 1 show ?thesis by (simp add: answered_def)
  next
    case 2
    from wait_woken [OF t(2,1)] 2 show ?thesis by (simp add: answered_def Let_def)
  qed (simp add: answered_def)
  have late: "pending (answered m) = []" "waiters (answered (Suc m)) j \<noteq> WBlocked p l" if "0 < m" for m j p l
    using that by (simp_all add: answered_def handle_simps r Let_def)
  show "\<exists>m\<ge>n. (p, c) \<notin> set (pending (answered m))" for p c
    using late(1) [of "Suc n"] by (intro exI [of _ "Suc n"]) simp
  show "\<exists>m\<ge>n. waiters (answered m) i \<noteq> WBlocked p l" for i p l
    using late(2) [of "Suc n"] by (intro exI [of _ "Suc (Suc n)"]) simp
qed

lemma wait_is_answered_witness:
  "\<exists>m d. waiters (answered m) 0 = WDone 7 (Some d) \<and> (7, d) \<in> exits (answered m)"
proof -
  have "waiters (answered 0) 0 = WBlocked 7 0" "(7, 3) \<in> set (pending (answered 0))"
    by (simp_all add: answered_def reaped_def asleep_def)
  with wait_is_answered [OF answered_fair] show ?thesis by blast
qed

section \<open>\<open>Run\<close> races with the reaper\<close>

text \<open>
  C30. \<open>Run\<close> misses the end of a short command. If the process is reaped before \<open>cmd.Start\<close> has stored it,
  the entry of the command is never released: \<open>Run\<close> blocks although its process is gone and no reaper
  has anything to handle. If it is reaped before \<open>waitCmd\<close> looks, \<open>Run\<close> returns the error \<open>command not
  found\<close> for a command that ran and exited with status 0.
\<close>

theorem run_misses_exit:
  "(\<exists>s l. pw_step\<^sup>*\<^sup>* pw_init s \<and> runners s 0 = RBlocked l \<and> held (procs s l) \<and> kern s 7 = Absent \<and>
      process s 0 = Some 7 \<and> pending s = [] \<and> exits s = {(7, 0)}) \<and>
   (\<exists>s. pw_step\<^sup>*\<^sup>* pw_init s \<and> runners s 0 = RDone CmdNotFound \<and> process s 0 = Some 7 \<and> exits s = {(7, 0)})"
proof
  define s1 where "s1 = run_enter 0 pw_init"
  define s2 where "s2 = s1\<lparr>kern := (kern s1)(7 := Alive), ours := insert 7 (ours s1), runners := (runners s1)(0 := RForked 7)\<rparr>"
  note s2 = s1_def s2_def run_enter_def Let_def pw_init_def new_entry_def
  have "pw_step pw_init s1" unfolding s1_def by (rule run_entered) (simp add: pw_init_def)
  moreover have "pw_step s1 s2" unfolding s2_def by (rule run_forked) (simp_all add: s2)
  ultimately have r2: "pw_step\<^sup>*\<^sup>* pw_init s2" by (intro converse_rtranclp_into_rtranclp [OF _ r_into_rtranclp])
  show "\<exists>s l. pw_step\<^sup>*\<^sup>* pw_init s \<and> runners s 0 = RBlocked l \<and> held (procs s l) \<and> kern s 7 = Absent \<and>
      process s 0 = Some 7 \<and> pending s = [] \<and> exits s = {(7, 0)}"
  proof (intro exI conjI)
    define s3 where "s3 = s2\<lparr>kern := (kern s2)(7 := Zombie 0), exits := insert (7, 0) (exits s2)\<rparr>"
    define s4 where "s4 = s3\<lparr>kern := (kern s3)(7 := Absent), ours := ours s3 - {7}, pending := (7, 0) # pending s3\<rparr>"
    define s5 where "s5 = handle 7 0 s4"
    define s6 where "s6 = s5\<lparr>process := (process s5)(0 := Some 7), runners := (runners s5)(0 := RStarted)\<rparr>"
    define s7 where "s7 = run_lookup 0 s6"
    note s7 = s2 s3_def s4_def s5_def s6_def s7_def handle_simps run_lookup_def told_def entries_def
    have "pw_step s2 s3" unfolding s3_def by (rule exit_process) (simp add: s7)
    moreover have "pw_step s3 s4" unfolding s4_def by (rule wait4) (simp_all add: s7)
    moreover have "pw_step s4 s5" unfolding s5_def by (rule handled) (simp add: s7)
    moreover have "pw_step s5 s6" unfolding s6_def by (rule run_assigned) (simp add: s7)
    moreover have "pw_step s6 s7" unfolding s7_def by (rule run_looked_up) (simp add: s7)
    ultimately show "pw_step\<^sup>*\<^sup>* pw_init s7"
      by (intro rtranclp.rtrancl_into_rtrancl [OF rtranclp.rtrancl_into_rtrancl [OF rtranclp.rtrancl_into_rtrancl
            [OF rtranclp.rtrancl_into_rtrancl [OF rtranclp.rtrancl_into_rtrancl [OF r2]]]]])
    show "runners s7 0 = RBlocked 0" "held (procs s7 0)" "kern s7 7 = Absent"
      "process s7 0 = Some 7" "pending s7 = []" "exits s7 = {(7, 0)}"
      by (simp_all add: s7)
  qed
  show "\<exists>s. pw_step\<^sup>*\<^sup>* pw_init s \<and> runners s 0 = RDone CmdNotFound \<and> process s 0 = Some 7 \<and> exits s = {(7, 0)}"
  proof (intro exI conjI)
    define s3 where "s3 = s2\<lparr>process := (process s2)(0 := Some 7), runners := (runners s2)(0 := RStarted)\<rparr>"
    define s4 where "s4 = s3\<lparr>kern := (kern s3)(7 := Zombie 0), exits := insert (7, 0) (exits s3)\<rparr>"
    define s5 where "s5 = s4\<lparr>kern := (kern s4)(7 := Absent), ours := ours s4 - {7}, pending := (7, 0) # pending s4\<rparr>"
    define s6 where "s6 = handle 7 0 s5"
    define s7 where "s7 = run_lookup 0 s6"
    note s7 = s2 s3_def s4_def s5_def s6_def s7_def handle_simps run_lookup_def told_def entries_def
    have "pw_step s2 s3" unfolding s3_def by (rule run_assigned) (simp add: s7)
    moreover have "pw_step s3 s4" unfolding s4_def by (rule exit_process) (simp add: s7)
    moreover have "pw_step s4 s5" unfolding s5_def by (rule wait4) (simp_all add: s7)
    moreover have "pw_step s5 s6" unfolding s6_def by (rule handled) (simp add: s7)
    moreover have "pw_step s6 s7" unfolding s7_def by (rule run_looked_up) (simp add: s7)
    ultimately show "pw_step\<^sup>*\<^sup>* pw_init s7"
      by (intro rtranclp.rtrancl_into_rtrancl [OF rtranclp.rtrancl_into_rtrancl [OF rtranclp.rtrancl_into_rtrancl
            [OF rtranclp.rtrancl_into_rtrancl [OF rtranclp.rtrancl_into_rtrancl [OF r2]]]]])
    show "runners s7 0 = RDone CmdNotFound" "process s7 0 = Some 7" "exits s7 = {(7, 0)}"
      by (simp_all add: s7)
  qed
qed

section \<open>The last reaper\<close>

text \<open>
  \<open>FinalReap\<close>: \<open>w i\<close> is the answer of the call \<open>i\<close> of \<open>waitWithPid(WNOHANG)\<close>, \<open>clock i\<close> the nanoseconds since
  the start when it is about to be made, \<open>c\<close> the number of answers without a process since the last
  one with a process. The result is the number of the iteration that ends the loop.
\<close>

datatype wait_answer = WaitError | NoProcess | Reaped int

partial_function (option) reap_from :: "(nat \<Rightarrow> wait_answer) \<Rightarrow> (nat \<Rightarrow> int) \<Rightarrow> nat \<Rightarrow> nat \<Rightarrow> nat option" where
  [code]: "reap_from w clock i c =
     (if clock i > 10000000000 then Some i
      else case w i of
        WaitError \<Rightarrow> Some i
      | NoProcess \<Rightarrow> if c + 1 \<ge> 3 then Some i else reap_from w clock (i + 1) (c + 1)
      | Reaped p \<Rightarrow> reap_from w clock (i + 1) 0)"

definition FinalReap :: "(nat \<Rightarrow> wait_answer) \<Rightarrow> (nat \<Rightarrow> int) \<Rightarrow> nat option" where
  "FinalReap w clock = reap_from w clock 0 0"

text \<open>What ends the loop, without the counter.\<close>

definition reap_ends :: "(nat \<Rightarrow> wait_answer) \<Rightarrow> (nat \<Rightarrow> int) \<Rightarrow> nat \<Rightarrow> bool" where
  "reap_ends w clock n \<longleftrightarrow> clock n > 10000000000 \<or> w n = WaitError \<or>
     2 \<le> n \<and> w (n - 2) = NoProcess \<and> w (n - 1) = NoProcess \<and> w n = NoProcess"

text \<open>The counter \<open>c\<close> is right in front of call \<open>i\<close>.\<close>

definition counted :: "(nat \<Rightarrow> wait_answer) \<Rightarrow> nat \<Rightarrow> nat \<Rightarrow> bool" where
  "counted w i c \<longleftrightarrow> c \<le> 2 \<and> c \<le> i \<and> (\<forall>j<c. w (i - Suc j) = NoProcess) \<and> (c < 2 \<longrightarrow> c < i \<longrightarrow> w (i - Suc c) \<noteq> NoProcess)"

lemma counted_ends:
  assumes "counted w i c" "\<not> clock i > 10000000000" "w i \<noteq> WaitError"
  shows "reap_ends w clock i \<longleftrightarrow> w i = NoProcess \<and> c + 1 \<ge> 3"
proof -
  consider "c = 0" | "c = 1" | "c = 2" using assms(1) unfolding counted_def by linarith
  then show ?thesis
  proof cases
    case 1
    then show ?thesis using assms by (cases i) (auto simp: reap_ends_def counted_def)
  next
    case 2
    then have "1 \<le> i" "1 < i \<Longrightarrow> w (i - 2) \<noteq> NoProcess" using assms(1) by (simp_all add: counted_def numeral_2_eq_2)
    then show ?thesis using assms 2 by (auto simp: reap_ends_def)
  next
    case 3
    then have "\<forall>j<2. w (i - Suc j) = NoProcess" "2 \<le> i" using assms(1) by (simp_all add: counted_def)
    then have "w (i - Suc 0) = NoProcess" "w (i - Suc 1) = NoProcess" "2 \<le> i" by simp_all
    then show ?thesis using assms 3 by (auto simp: reap_ends_def numeral_2_eq_2)
  qed
qed

lemma counted_next:
  "counted w i c \<Longrightarrow> w i = NoProcess \<Longrightarrow> c + 1 < 3 \<Longrightarrow> counted w (i + 1) (c + 1)"
  by (auto simp: counted_def less_Suc_eq_0_disj)

lemma counted_reset: "w i = Reaped p \<Longrightarrow> counted w (i + 1) 0"
  by (simp add: counted_def)

lemma reap_from_ends:
  "counted w i c \<Longrightarrow> reap_ends w clock (i + n) \<Longrightarrow> (\<And>m. m < n \<Longrightarrow> \<not> reap_ends w clock (i + m)) \<Longrightarrow>
   reap_from w clock i c = Some (i + n)"
proof (induction n arbitrary: i c)
  case 0
  then show ?case
    using counted_ends [OF 0(1), of clock]
    by (subst reap_from.simps) (auto simp: reap_ends_def split: wait_answer.split)
next
  case (Suc n)
  have no: "\<not> reap_ends w clock i" using Suc.prems(3) [of 0] by simp
  then have c: "\<not> clock i > 10000000000" "w i \<noteq> WaitError" by (auto simp: reap_ends_def)
  have IH: "reap_from w clock (i + 1) c' = Some (i + Suc n)" if "counted w (i + 1) c'" for c'
    using Suc.IH [OF that] Suc.prems(2) Suc.prems(3) [of "Suc _"] by simp
  show ?case
  proof (cases "w i")
    case NoProcess
    then have "c + 1 < 3" using counted_ends [where w = w and i = i and clock = clock and c = c, OF Suc.prems(1) c] no by simp
    with NoProcess c IH [OF counted_next [OF Suc.prems(1) NoProcess]] show ?thesis
      by (subst reap_from.simps) simp
  next
    case (Reaped p)
    with c IH [OF counted_reset [of w i p, OF Reaped]] show ?thesis by (subst reap_from.simps) simp
  qed (use c in simp)
qed

lemma reap_from_some:
  assumes "reap_from w clock i c = Some n" "counted w i c"
  shows "i \<le> n \<and> reap_ends w clock n \<and> (\<forall>m. i \<le> m \<longrightarrow> m < n \<longrightarrow> \<not> reap_ends w clock m)"
proof -
  have "counted w i c \<longrightarrow> i \<le> n \<and> reap_ends w clock n \<and> (\<forall>m. i \<le> m \<longrightarrow> m < n \<longrightarrow> \<not> reap_ends w clock m)"
  proof (rule reap_from.raw_induct [OF _ assms(1)])
    fix f w clock i c n
    assume IH: "\<And>w clock i c n. f w clock i c = Some n \<Longrightarrow>
        counted w i c \<longrightarrow> i \<le> n \<and> reap_ends w clock n \<and> (\<forall>m. i \<le> m \<longrightarrow> m < n \<longrightarrow> \<not> reap_ends w clock m)"
      and run: "(if clock i > 10000000000 then Some i
         else case w i of WaitError \<Rightarrow> Some i
           | NoProcess \<Rightarrow> if c + 1 \<ge> 3 then Some i else f w clock (i + 1) (c + 1)
           | Reaped p \<Rightarrow> f w clock (i + 1) 0) = Some n"
    show "counted w i c \<longrightarrow> i \<le> n \<and> reap_ends w clock n \<and> (\<forall>m. i \<le> m \<longrightarrow> m < n \<longrightarrow> \<not> reap_ends w clock m)"
    proof
      assume ok: "counted w i c"
      show "i \<le> n \<and> reap_ends w clock n \<and> (\<forall>m. i \<le> m \<longrightarrow> m < n \<longrightarrow> \<not> reap_ends w clock m)"
      proof (cases "reap_ends w clock i")
        case True
        have "n = i"
        proof (cases "clock i > 10000000000 \<or> w i = WaitError")
          case True
          with run show ?thesis by (auto split: if_splits)
        next
          case False
          with counted_ends [OF ok] True have "w i = NoProcess" "c + 1 \<ge> 3" by auto
          with False run show ?thesis by simp
        qed
        with True show ?thesis by auto
      next
        case False
        then have c: "\<not> clock i > 10000000000" "w i \<noteq> WaitError" by (auto simp: reap_ends_def)
        have "\<exists>c'. f w clock (i + 1) c' = Some n \<and> counted w (i + 1) c'"
        proof (cases "w i")
          case NoProcess
          then have "c + 1 < 3" using counted_ends [where w = w and i = i and clock = clock and c = c, OF ok c] False by simp
          with NoProcess c run counted_next [OF ok NoProcess] show ?thesis by auto
        next
          case (Reaped p)
          with c run counted_reset [of w i p, OF Reaped] show ?thesis by auto
        qed (use c in simp)
        then have later: "i + 1 \<le> n" "reap_ends w clock n" "\<forall>m. i + 1 \<le> m \<longrightarrow> m < n \<longrightarrow> \<not> reap_ends w clock m"
          using IH by blast+
        have "\<not> reap_ends w clock m" if "i \<le> m" "m < n" for m
          using later(3) False that by (cases "m = i") simp_all
        then show ?thesis using later by simp
      qed
    qed
  qed
  then show ?thesis using assms(2) by simp
qed

lemma reap_iff:
  "FinalReap w clock = Some n \<longleftrightarrow> reap_ends w clock n \<and> (\<forall>m<n. \<not> reap_ends w clock m)"
proof
  have start: "counted w 0 0" by (simp add: counted_def)
  show "reap_ends w clock n \<and> (\<forall>m<n. \<not> reap_ends w clock m)" if "FinalReap w clock = Some n"
    using reap_from_some [OF that [unfolded FinalReap_def] start] by simp
  show "FinalReap w clock = Some n" if "reap_ends w clock n \<and> (\<forall>m<n. \<not> reap_ends w clock m)"
    using reap_from_ends [OF start, of clock n] that by (simp add: FinalReap_def)
qed

text \<open>The time is enough for the loop to end, whatever it reaps.\<close>

lemma reap_returns:
  assumes "clock k > 10000000000"
  shows "\<exists>n. FinalReap w clock = Some n"
proof -
  have "reap_ends w clock k" using assms by (simp add: reap_ends_def)
  then have "reap_ends w clock (LEAST n. reap_ends w clock n)" by (rule LeastI)
  moreover have "\<not> reap_ends w clock m" if "m < (LEAST n. reap_ends w clock n)" for m
    using that by (rule not_less_Least)
  ultimately show ?thesis unfolding reap_iff by blast
qed

text \<open>
  C37. The last reaper stops at the first call that is made more than ten seconds after its start, that
  fails, or that is the third in a row that finds no process, and at no other call; so it returns if
  and only if there is such a call.
\<close>

theorem last_reaper_stops:
  "FinalReap w clock = Some n \<longleftrightarrow> reap_ends w clock n \<and> (\<forall>m<n. \<not> reap_ends w clock m)"
  by (rule reap_iff)

text \<open>One child is reaped, then no more are left.\<close>

lemma last_reaper_stops_witness:
  "FinalReap (\<lambda>i. if i = 0 then Reaped 5 else NoProcess) (\<lambda>_. 0) = Some 3"
proof -
  have "\<not> reap_ends (\<lambda>i. if i = 0 then Reaped 5 else NoProcess) (\<lambda>_. 0) m" if "m < 3" for m
    using that by (simp add: reap_ends_def)
  moreover have "reap_ends (\<lambda>i. if i = 0 then Reaped 5 else NoProcess) (\<lambda>_. 0) 3"
    by (simp add: reap_ends_def)
  ultimately show ?thesis unfolding last_reaper_stops by blast
qed

end
