(* ===== verification/Server.thy ===== *)
theory Server
  imports Commands Monitor ProcWait
begin

text \<open>
  The server of \<open>systemd/main.go\<close> around the parts modelled elsewhere: its flags, the preload file, the
  sockets, the boot (\<open>startup.go\<close>) and the shutdown (\<open>shutdown.go\<close>), which stops the services
  (\<open>DaemonRun\<close>) and then reaps what is left (\<open>ProcWait\<close>).

  \<^item> A socket in the file system is a name that cannot be made again while it exists (\<open>net.Listen\<close>);
    its node is an empty file.
  \<^item> The two libraries \<open>fork.so\<close> are embedded files; their contents are arguments.
\<close>

section \<open>Flags\<close>

record options =
  LogToStderr :: bool
  LogToFile :: bool
  ldPreload :: bool
  Debug :: bool

definition default_options :: options where
  "default_options = \<lparr>LogToStderr = False, LogToFile = True, ldPreload = True, Debug = False\<rparr>"

text \<open>The loop over \<open>os.Args[1:]\<close>; \<open>Inl\<close> is the parameter of \<open>log.Fatalf\<close>.\<close>

fun parse_flags :: "string list \<Rightarrow> options \<Rightarrow> string + options" where
  "parse_flags [] o1 = Inr o1"
| "parse_flags (item # items) o1 =
     (if item = ''--log-to-stderr'' then parse_flags items (o1\<lparr>LogToStderr := True\<rparr>)
      else if item = ''--no-logfile'' then parse_flags items (o1\<lparr>LogToFile := False\<rparr>)
      else if item = ''--no-pidtrack'' then parse_flags items (o1\<lparr>ldPreload := False\<rparr>)
      else if item = ''--debug-reaper'' then parse_flags items (o1\<lparr>Debug := True\<rparr>)
      else Inl item)"

definition known_flags :: "string list" where
  "known_flags = [''--log-to-stderr'', ''--no-logfile'', ''--no-pidtrack'', ''--debug-reaper'']"

text \<open>The first unknown parameter is the error; otherwise each flag counts once, in any order.\<close>

lemma parse_flags_find:
  "parse_flags items o1 = (case find (\<lambda>x. x \<notin> set known_flags) items of
     Some x \<Rightarrow> Inl x
   | None \<Rightarrow> Inr \<lparr>LogToStderr = (LogToStderr o1 \<or> ''--log-to-stderr'' \<in> set items),
       LogToFile = (LogToFile o1 \<and> ''--no-logfile'' \<notin> set items),
       ldPreload = (ldPreload o1 \<and> ''--no-pidtrack'' \<notin> set items),
       Debug = (Debug o1 \<or> ''--debug-reaper'' \<in> set items)\<rparr>)"
proof (induction items arbitrary: o1)
  case (Cons item items)
  consider "item = ''--log-to-stderr''" | "item = ''--no-logfile''" | "item = ''--no-pidtrack''"
    | "item = ''--debug-reaper''" | "item \<notin> set known_flags"
    by (simp add: known_flags_def) metis
  then show ?case
  proof cases
    case 5
    then show ?thesis by (simp add: known_flags_def)
  qed (simp_all add: Cons.IH known_flags_def cong: option.case_cong)
qed simp

section \<open>Setting up\<close>

definition preload_file :: string where "preload_file = ''/etc/ld.so.preload''"
definition preload_lib :: string where "preload_lib = ''/usr/local/lib/fork.so''"
definition pidtrack_socket :: string where "pidtrack_socket = ''/tmp/docker-systemd-pidtrack.sock''"

text \<open>Calls whose error is ignored.\<close>

definition try_write :: "string \<Rightarrow> string \<Rightarrow> filesys \<Rightarrow> filesys" where
  "try_write p c f = (case fs_write_file p c f of None \<Rightarrow> f | Some f' \<Rightarrow> f')"

definition try_remove :: "string \<Rightarrow> filesys \<Rightarrow> filesys" where
  "try_remove p f = (case fs_remove_one p f of None \<Rightarrow> f | Some f' \<Rightarrow> f')"

text \<open>\<open>net.Listen\<close> on a name that does not exist.\<close>

definition listen_at :: "string \<Rightarrow> filesys \<Rightarrow> filesys option" where
  "listen_at p f = (if fs_lstat f p = None \<and> parent_exists f p then Some (fs_write p [] f) else None)"

definition preload_content :: "string \<Rightarrow> string" where
  "preload_content c =
     (if c = [] then preload_lib @ [CHR 0x0A] else c @ [CHR 0x0A] @ preload_lib @ [CHR 0x0A])"

definition read_preload :: "filesys \<Rightarrow> string" where
  "read_preload f = (case fs_read_file f preload_file of None \<Rightarrow> [] | Some c \<Rightarrow> c)"

definition set_preload :: "filesys \<Rightarrow> filesys" where
  "set_preload f =
     (let c = read_preload f
      in if str_contains c preload_lib then f else try_write preload_file (preload_content c) f)"

text \<open>Whether the tracking socket is there, with the files.\<close>

definition pidtrack :: "filesys \<Rightarrow> bool \<times> filesys" where
  "pidtrack f =
     (let f = try_remove pidtrack_socket (set_preload f)
      in case listen_at pidtrack_socket f of None \<Rightarrow> (False, f) | Some f' \<Rightarrow> (True, f'))"

text \<open>\<open>None\<close> is the fatal error that the control socket cannot be made.\<close>

definition set_up :: "options \<Rightarrow> string \<Rightarrow> string \<Rightarrow> filesys \<Rightarrow> filesys option" where
  "set_up opts forkfile fakeforkfile f =
     (let f = mkdir_all log_path f;
          f = (if ldPreload opts then snd (pidtrack (try_write preload_lib forkfile f))
               else try_write preload_lib fakeforkfile f)
      in listen_at socket_path (try_remove socket_path f))"

section \<open>Shutting down\<close>

text \<open>
  \<open>shut_held\<close> is \<open>shutdownLock\<close>, which is never released; \<open>booted\<close> says that \<open>daemons.New\<close> has returned, so
  that the variable \<open>d\<close> is not nil. The exit code is the result.
\<close>

record init =
  isys :: sys
  shut_held :: bool
  booted :: bool

definition shutdown_server :: "range_order \<Rightarrow> env \<Rightarrow> (nat \<Rightarrow> wait_answer) \<Rightarrow> (nat \<Rightarrow> int) \<Rightarrow> init \<Rightarrow> (nat \<times> init) outcome" where
  "shutdown_server ord E w clock st =
     (if shut_held st then Crash SelfDeadlock
      else if \<not> booted st then Crash NilDeref
      else let s = (isys st)\<lparr>fs := try_remove socket_path (fs (isys st))\<rparr>
           in andthen (stop_all ord E s) (\<lambda>(err, s).
                case FinalReap w clock of
                  None \<Rightarrow> Diverge
                | Some _ \<Rightarrow> Done (case err of None \<Rightarrow> 0 | Some _ \<Rightarrow> 1, st\<lparr>isys := s, shut_held := True\<rparr>)))"

text \<open>The goroutine that starts the services: no exit code if the boot succeeds.\<close>

definition boot_server :: "range_order \<Rightarrow> nat \<Rightarrow> env \<Rightarrow> (nat \<Rightarrow> wait_answer) \<Rightarrow> (nat \<Rightarrow> int) \<Rightarrow> init \<Rightarrow> (nat option \<times> init) outcome" where
  "boot_server ord n E w clock st =
     andthen (load_and_start ord n E (isys st)) (\<lambda>(err, s).
       let st = st\<lparr>isys := s, booted := True\<rparr> in
       case err of
         None \<Rightarrow> Done (None, st)
       | Some _ \<Rightarrow> andthen (shutdown_server ord E w clock st) (\<lambda>(code, st). Done (Some code, st)))"

section \<open>The preload file is written once\<close>

text \<open>What is read back after a write, through any links.\<close>

lemma write_then_read:
  assumes "fs_write_file p c f = Some f'"
  shows "fs_read_file f' p = Some c"
proof -
  obtain q where q: "write_target 40 f p = Some q" "f' = fs_write q c f"
    using assms by (auto simp: fs_write_file_def split: option.splits if_splits)
  have "write_target n f p = Some q \<Longrightarrow> fs_follow n (fs_write q c f) p = Some (q, RegFile c)" for n
    by (induction n f p rule: write_target.induct)
      (auto simp: fs_write_def fs_lstat_def gm.get_put split: option.splits node.splits if_splits)
  with q show ?thesis by (simp add: fs_read_file_def fs_resolve_def)
qed

lemma prefix_contains: "has_prefix s sub \<Longrightarrow> str_contains s sub"
  by (cases s) (auto simp: has_prefix_iff)

lemma contains_append: "str_contains (a @ sub @ b) sub"
  by (induction a) (simp_all add: prefix_contains)

lemma preload_content_lists: "str_contains (preload_content c) preload_lib"
proof (cases "c = []")
  case True
  then show ?thesis using contains_append [of "[]" preload_lib] by (simp add: preload_content_def)
next
  case False
  then show ?thesis using contains_append [of "c @ [CHR 0x0A]" preload_lib] by (simp add: preload_content_def)
qed

text \<open>A line of a text occurs in it.\<close>

lemma join_contains: "l \<in> set ls \<Longrightarrow> \<exists>a b. join_with sep ls = a @ l @ b"
proof (induction sep ls rule: join_with.induct)
  case (3 sep p q ps)
  show ?case
  proof (cases "l = p")
    case True
    then show ?thesis by (intro exI [of _ "[]"] exI [of _ "sep @ join_with sep (q # ps)"]) simp
  next
    case False
    with 3 obtain a b where "join_with sep (q # ps) = a @ l @ b" by auto
    then show ?thesis by (intro exI [of _ "p @ sep @ a"] exI [of _ b]) simp
  qed
qed (auto intro: exI [of _ "[]"])

lemma line_contained: "l \<in> set (split_at c s) \<Longrightarrow> str_contains s l"
  using join_contains [of l "split_at c s" "[c]"] contains_append by (auto simp: join_split)

text \<open>How often the library is a line of the preload file.\<close>

definition library_lines :: "string \<Rightarrow> nat" where
  "library_lines c = length (filter (\<lambda>l. l = ''/usr/local/lib/fork.so'') (split_at (CHR 0x0A) c))"

lemma preload_lib_once: "\<not> str_contains c preload_lib \<Longrightarrow> library_lines (preload_content c) = 1"
proof -
  assume no: "\<not> str_contains c preload_lib"
  have lib: "split_at (CHR 0x0A) preload_lib = [preload_lib]"
    "split_at (CHR 0x0A) (preload_lib @ [CHR 0x0A]) = [preload_lib, []]"
    by (simp_all add: preload_lib_def)
  have "filter (\<lambda>l. l = preload_lib) (split_at (CHR 0x0A) c) = []"
    using no line_contained by (force simp: filter_empty_conv)
  moreover have "split_at (CHR 0x0A) (c @ [CHR 0x0A] @ preload_lib @ [CHR 0x0A]) =
      split_at (CHR 0x0A) c @ [preload_lib, []]"
    by (simp add: split_at_append_gen lib)
  ultimately show ?thesis
    using lib by (simp add: library_lines_def preload_content_def preload_lib_def)
qed

lemma write_any_content: "fs_write_file p c f \<noteq> None \<Longrightarrow> fs_write_file p c' f \<noteq> None"
  by (auto simp: fs_write_file_def split: option.splits if_splits)

text \<open>
  C34. However often the container boots, the library is listed in the preload file once. If the file
  can be written, then after it has been set it contains the library; a file that contained it before is
  left as it is, and any other keeps what it held and gets the library as exactly one line at its end;
  and setting it a second time changes nothing.
\<close>

theorem preload_set_once:
  assumes "fs_write_file ''/etc/ld.so.preload'' [] f \<noteq> None"
    and "old = (case fs_read_file f ''/etc/ld.so.preload'' of None \<Rightarrow> [] | Some c \<Rightarrow> c)"
  shows "(if str_contains old ''/usr/local/lib/fork.so'' then set_preload f = f
          else \<exists>new. fs_read_file (set_preload f) ''/etc/ld.so.preload'' = Some new \<and>
            new = old @ (if old = [] then [] else [CHR 0x0A]) @ ''/usr/local/lib/fork.so'' @ [CHR 0x0A] \<and>
            library_lines new = 1) \<and>
    set_preload (set_preload f) = set_preload f"
proof (cases "str_contains old preload_lib")
  case True
  then show ?thesis using assms(2)
    by (simp add: set_preload_def read_preload_def preload_file_def preload_lib_def)
next
  case False
  have old: "old = read_preload f" using assms(2) by (simp add: read_preload_def preload_file_def)
  obtain f' where f': "fs_write_file preload_file (preload_content old) f = Some f'"
    using write_any_content [OF assms(1), of "preload_content old"] by (auto simp: preload_file_def)
  with False have s: "set_preload f = f'" by (simp add: set_preload_def try_write_def old)
  have r: "fs_read_file f' preload_file = Some (preload_content old)" using f' by (rule write_then_read)
  then have "set_preload f' = f'" by (simp add: set_preload_def read_preload_def preload_content_lists)
  then show ?thesis using False s r preload_lib_once [OF False]
    by (simp add: preload_file_def preload_lib_def [symmetric] preload_content_def)
qed

definition preload_fs :: filesys where
  "preload_fs = [(''/etc'', Directory), (''/etc/ld.so.preload'', RegFile ''/lib/a.so'')]"

lemma preload_set_once_witness:
  "fs_read_file (set_preload preload_fs) ''/etc/ld.so.preload'' =
     Some (''/lib/a.so'' @ [CHR 0x0A] @ ''/usr/local/lib/fork.so'' @ [CHR 0x0A])"
proof -
  have "fs_write_file ''/etc/ld.so.preload'' [] preload_fs \<noteq> None"
    "fs_read_file preload_fs ''/etc/ld.so.preload'' = Some ''/lib/a.so''"
    "\<not> str_contains ''/lib/a.so'' ''/usr/local/lib/fork.so''" by code_simp+
  with preload_set_once [of preload_fs "''/lib/a.so''"] show ?thesis by simp
qed

section \<open>Every service is stopped\<close>

text \<open>
  The state that the shutdown leaves a service in: it stops those that are neither stopped nor being
  stopped; a masked service refuses and goes on as it was.
\<close>

definition shut_state :: "daemon \<Rightarrow> dstate" where
  "shut_state d =
     (if is_masked d \<or> dstate d = StateStopped \<or> dstate d = StateStopping then dstate d else StateStopped)"

definition stoppable :: "ref \<Rightarrow> sys \<Rightarrow> bool" where
  "stoppable p s \<longleftrightarrow> p \<notin> set (locks s) \<and> def (heap s p) \<noteq> None \<and> None \<notin> set (cmds (heap s p))"

lemma own_changes_other: "own_changes p s s' \<Longrightarrow> q \<noteq> p \<Longrightarrow> heap s' q = heap s q"
  by (simp add: own_changes_def)

lemma stop_settles:
  assumes "quiet E" "commands_end E" "\<And>t. log_opens E t" "stoppable p s"
  shows "\<exists>e s'. stop E True (Some p) s = Done (e, s') \<and> same_units s s' \<and> own_changes p s s' \<and>
    dstate (heap s' p) = (if is_masked (heap s p) then dstate (heap s p) else StateStopped)"
proof (cases "is_masked (heap s p)")
  case True
  with assms(4) have "stop E True (Some p) s = Done (Some ServiceMasked, s)"
    by (intro stop_refused) (simp_all add: stoppable_def)
  with True show ?thesis by (simp add: units.frame_refl own.frame_refl)
next
  case False
  obtain df where df: "def (heap s p) = Some df" using assms(4) by (auto simp: stoppable_def)
  obtain t where t: "stop_run E p (stop_begun True p s) = Done (Next (), t)" "dstate (heap t p) = StateStopped"
    using stop_run_trace [OF assms(1,2), of "stop_begun True p s" p df] df assms(4) by (auto simp: stoppable_def)
  have run: "stop E True (Some p) s = Done (None, t)"
    using stop_runs [of p s E True] False assms(3,4) t by (simp add: go_fun_def stoppable_def)
  have "same_units s t" using method_leavesD [OF stop_units [OF assms(1)] run] .
  moreover have "own_changes p (stop_begun True p s) t" using leavesD [OF stop_run_own [OF assms(1)] t(1)] .
  then have "own_changes p s t" by (auto simp: own_changes_def stop_begun_def)
  ultimately show ?thesis using run t(2) False by simp
qed

lemma stop_listed_settles:
  assumes "quiet E" "commands_end E" "\<And>t. log_opens E t" "stoppable (snd x) s"
  shows "\<exists>s'. stop_listed E x s = Done (Next (), s') \<and> same_units s s' \<and> own_changes (snd x) s s' \<and>
    dstate (heap s' (snd x)) = shut_state (heap s (snd x))"
proof (cases "dstate (heap s (snd x)) = StateStopped \<or> dstate (heap s (snd x)) = StateStopping")
  case True
  then show ?thesis
    by (auto simp: stop_listed_def go_bind_def go_get_def go_next_def shut_state_def units.frame_refl own.frame_refl)
next
  case False
  with stop_settles [OF assms] show ?thesis
    by (auto simp: stop_listed_def go_bind_def go_get_def go_next_def go_call_def shut_state_def)
qed

lemma stoppable_kept:
  assumes "same_units s s'" "own_changes p s s'" "stoppable q s"
  shows "stoppable q s'"
proof -
  have "def (heap s q) \<noteq> None" using assms(3) by (simp add: stoppable_def)
  moreover have "map_option core (def (heap s' q)) = map_option core (def (heap s q))"
    using assms(1) by (simp add: same_units_def same_unit_def)
  ultimately have "def (heap s' q) \<noteq> None" by (metis option.map_disc_iff)
  then show ?thesis using assms by (simp add: stoppable_def same_units_def own_changes_def)
qed

lemma shut_state_again: "is_masked d' = is_masked d \<Longrightarrow> dstate d' = shut_state d \<Longrightarrow> shut_state d' = shut_state d"
  by (simp add: shut_state_def split: if_splits)

lemma stop_each_settles:
  assumes "quiet E" "commands_end E" "\<And>t. log_opens E t" "\<forall>x\<in>set xs. stoppable (snd x) s"
  shows "\<exists>s'. go_for (stop_listed E) xs s = Done (Next (), s') \<and> same_units s s' \<and>
    (\<forall>q. dstate (heap s' q) = (if q \<in> snd ` set xs then shut_state (heap s q) else dstate (heap s q)))"
  using assms(4)
proof (induction xs arbitrary: s)
  case Nil
  then show ?case by (simp add: go_next_def units.frame_refl)
next
  case (Cons x xs)
  obtain t where t: "stop_listed E x s = Done (Next (), t)" "same_units s t" "own_changes (snd x) s t"
    "dstate (heap t (snd x)) = shut_state (heap s (snd x))"
    using stop_listed_settles [OF assms(1-3), of x s] Cons.prems by auto
  have "\<forall>y\<in>set xs. stoppable (snd y) t" using Cons.prems stoppable_kept [OF t(2,3)] by simp
  from Cons.IH [OF this] obtain s' where s': "go_for (stop_listed E) xs t = Done (Next (), s')" "same_units t s'"
    "\<And>q. dstate (heap s' q) = (if q \<in> snd ` set xs then shut_state (heap t q) else dstate (heap t q))" by blast
  have "dstate (heap s' q) = (if q \<in> snd ` set (x # xs) then shut_state (heap s q) else dstate (heap s q))" for q
  proof (cases "q = snd x")
    case True
    have "is_masked (heap t q) = is_masked (heap s q)" using t(2) by (simp add: same_units_def same_unit_def)
    then show ?thesis using shut_state_again [of "heap t q" "heap s q"] t(4) s'(3) [of q] True by simp
  next
    case False
    then show ?thesis using s'(3) [of q] own_changes_other [OF t(3) False] by simp
  qed
  then show ?case
    using t(1) s'(1) units.frame_trans [OF t(2) s'(2)] by (auto simp: go_bind_def)
qed

lemma stop_all_settles:
  assumes "quiet E" "commands_end E" "\<And>t. log_opens E t" "range_ok ord" "gm_ok (dlist s)"
    and "\<forall>x\<in>set (dlist s). stoppable (snd x) s"
  shows "\<exists>s'. stop_all ord E s = Done (None, s') \<and> shutdown s' \<and> same_units (s\<lparr>shutdown := True\<rparr>) s' \<and>
    (\<forall>x\<in>set (dlist s). dstate (heap s' (snd x)) = shut_state (heap s (snd x)))"
proof -
  have set: "set (ord (dlist s)) = set (dlist s)" using assms(4,5) by (simp add: range_ok_def)
  let ?s = "s\<lparr>shutdown := True\<rparr>"
  have "\<forall>x\<in>set (ord (dlist s)). stoppable (snd x) ?s" using assms(6) set by (simp add: stoppable_def)
  from stop_each_settles [OF assms(1-3) this] obtain s' where
    s': "go_for (stop_listed E) (ord (dlist s)) ?s = Done (Next (), s')" "same_units ?s s'"
      "\<And>q. dstate (heap s' q) = (if q \<in> snd ` set (ord (dlist s)) then shut_state (heap ?s q) else dstate (heap ?s q))"
    by blast
  have "dstate (heap s' (snd x)) = shut_state (heap s (snd x))" if "x \<in> set (dlist s)" for x
    using s'(3) [of "snd x"] that set by simp
  then show ?thesis using s'(1,2) by (simp add: stop_all_def go_fun_def same_units_def)
qed

text \<open>Nothing starts any more.\<close>

lemma start_refused:
  "shutdown s \<Longrightarrow> start (Suc n) E (Some p) m s = Done (Some (StartShuttingDown (dname (heap s p))), s)"
  by (simp add: start_body_def go_fun_def go_bind_def start_guard_def go_get_def is_shutting_down_def go_return_def)

text \<open>
  C12. What a shutdown does, with no other goroutine at work, commands that end and a clock that goes on:
  it exits with code 0 whatever the reaping finds; every service of the registry that is neither masked
  nor stopped nor already being stopped ends stopped, and the others stay in the state they were in, a
  masked service that runs among them; the control socket is removed; and every later start is refused
  and changes nothing.
\<close>

theorem shutdown_settles:
  assumes "quiet E" "commands_end E" "\<And>t. log_opens E t" "range_ok ord" "gm_ok (dlist (isys st))" "\<not> shut_held st"
    and "booted st" "\<forall>x\<in>set (dlist (isys st)). stoppable (snd x) (isys st)" "clock k > 10000000000"
  shows "\<exists>st'. shutdown_server ord E w clock st = Done (0, st') \<and>
    (\<forall>x\<in>set (dlist (isys st)). dstate (heap (isys st') (snd x)) =
       (let d = heap (isys st) (snd x) in
        if is_masked d \<or> dstate d = StateStopped \<or> dstate d = StateStopping then dstate d else StateStopped)) \<and>
    fs (isys st') = try_remove socket_path (fs (isys st)) \<and>
    (\<forall>n p m. start (Suc n) E (Some p) m (isys st') =
       Done (Some (StartShuttingDown (dname (heap (isys st') p))), isys st'))"
proof -
  let ?s = "(isys st)\<lparr>fs := try_remove socket_path (fs (isys st))\<rparr>"
  have "gm_ok (dlist ?s)" "\<forall>x\<in>set (dlist ?s). stoppable (snd x) ?s"
    using assms(5,8) by (simp_all add: stoppable_def)
  from stop_all_settles [OF assms(1-4) this] obtain s' where
    s': "stop_all ord E ?s = Done (None, s')" "shutdown s'" "same_units (?s\<lparr>shutdown := True\<rparr>) s'"
      "\<forall>x\<in>set (dlist ?s). dstate (heap s' (snd x)) = shut_state (heap ?s (snd x))" by blast
  obtain i where "FinalReap w clock = Some i" using reap_returns [of clock k w, OF assms(9)] by blast
  then have "shutdown_server ord E w clock st = Done (0, st\<lparr>isys := s', shut_held := True\<rparr>)"
    using assms(6,7) s'(1) by (simp add: shutdown_server_def)
  then show ?thesis using s' start_refused [OF s'(2)] by (auto simp: same_units_def shut_state_def Let_def)
qed

text \<open>A signal that arrives during the boot takes the init process down.\<close>

lemma shutdown_during_boot_panics:
  "\<not> booted st \<Longrightarrow> \<not> shut_held st \<Longrightarrow> shutdown_server ord E w clock st = Crash NilDeref"
  by (simp add: shutdown_server_def)

text \<open>A running service with a process that ignores SIGTERM for a while, and children that never stop dying.\<close>

lemma shutdown_settles_witness:
  "\<exists>st'. shutdown_server id (calm_env 5) (\<lambda>i. Reaped (int i)) (\<lambda>i. int i * 1000000000)
       \<lparr>isys = serving with_stop [Some 7], shut_held = False, booted = True\<rparr> = Done (0, st') \<and>
     dstate (heap (isys st') 0) = StateStopped \<and>
     start 1 (calm_env 5) (Some 0) True (isys st') = Done (Some (StartShuttingDown (dname (heap (isys st') 0))), isys st')"
proof -
  let ?st = "\<lparr>isys = serving with_stop [Some 7], shut_held = False, booted = True\<rparr>"
  let ?clock = "\<lambda>i. int i * 1000000000"
  have d: "\<forall>x\<in>set (dlist (isys ?st)). stoppable (snd x) (isys ?st)" "gm_ok (dlist (isys ?st))"
    by (simp_all add: serving_def stoppable_def init_sys_def new_daemon_def)
  have l: "log_opens (calm_env 5) t" for t by (simp add: calm_env_def)
  obtain st' where st': "shutdown_server id (calm_env 5) (\<lambda>i. Reaped (int i)) ?clock ?st = Done (0, st')"
    "\<forall>x\<in>set (dlist (isys ?st)). dstate (heap (isys st') (snd x)) =
       (let d = heap (isys ?st) (snd x) in
        if is_masked d \<or> dstate d = StateStopped \<or> dstate d = StateStopping then dstate d else StateStopped)"
    "\<forall>n p m. start (Suc n) (calm_env 5) (Some p) m (isys st') =
       Done (Some (StartShuttingDown (dname (heap (isys st') p))), isys st')"
    using shutdown_settles [where st = ?st and clock = ?clock and k = 11 and w = "\<lambda>i. Reaped (int i)",
        OF calm_quiet calm_ends l range_ok_id d(2) _ _ d(1)] by auto
  have "dstate (heap (isys st') 0) = StateStopped"
    using st'(2) by (simp add: serving_def new_daemon_def Let_def)
  with st' show ?thesis by (intro exI [of _ st']) simp
qed

end
