(* ===== verification/Launcher.thy ===== *)
theory Launcher
  imports DaemonFiles
begin

text \<open>
  \<open>main.go\<close>: the one binary decides by the name it is called under what it is, and as the init process
  links these names to itself before it boots.
\<close>

section \<open>What the binary is called as\<close>

datatype program =
    Journal
  | PrintVersion string
  | Client "string list"   \<comment> \<open>\<open>systemctl.Main\<close> with these arguments\<close>
  | Boot

text \<open>\<open>Boot\<close> is the default branch: it installs the links, writes the boot time and runs the server.\<close>

definition dispatch :: "int \<Rightarrow> string \<Rightarrow> string list \<Rightarrow> program outcome" where
  "dispatch pid version args =
     (case args of
        [] \<Rightarrow> Crash IndexRange
      | arg0 # _ \<Rightarrow>
          let name = (if pid = 1 then ''init'' else base_part arg0) in
          Done (if name = ''journalctl'' then Journal
                else if name = ''systemctl'' then
                  if length args = 2 \<and> args ! 1 = ''version''
                  then PrintVersion (trim version [CHR 0x0D, CHR 0x0A, CHR 0x09, CHR 0x20])
                  else Client args
                else if name = ''poweroff'' \<or> name = ''shutdown'' then Client [arg0, ''poweroff'']
                else if name = ''service'' then
                  Client (if length args > 2 then args[1 := args ! 2, 2 := args ! 1] else args)
                else Boot))"

section \<open>Installing the links\<close>

definition suitable_paths :: "string list" where
  "suitable_paths = [''/usr/local/sbin'', ''/usr/local/bin'', ''/usr/bin'', ''/bin'', ''/usr/sbin'', ''/sbin'']"

text \<open>The first suitable directory of \<open>PATH\<close>.\<close>

definition split_list :: "string \<Rightarrow> string list" where
  "split_list p = (if p = [] then [] else split_at (CHR '':'') p)"

definition base_path :: "string \<Rightarrow> string" where
  "base_path env_path =
     (case find (\<lambda>item. item \<in> set suitable_paths) (split_list env_path) of
        None \<Rightarrow> ''/usr/sbin''
      | Some item \<Rightarrow> trim_right item ''/'')"

definition link_names :: "string list" where
  "link_names = [''/journalctl'', ''/systemctl'', ''/systemd'', ''/init'', ''/poweroff'', ''/shutdown'', ''/service'']"

definition old_name :: "string \<Rightarrow> string" where
  "old_name p = p @ ''.old''"

text \<open>\<open>os.Rename\<close>: a directory moves with what is in it; a directory is not replaced.\<close>

definition moved :: "string \<Rightarrow> string \<Rightarrow> string \<Rightarrow> string" where
  "moved old new q = (if q = old \<or> has_prefix q (old @ ''/'') then new @ drop (length old) q else q)"

definition fs_rename :: "string \<Rightarrow> string \<Rightarrow> filesys \<Rightarrow> filesys option" where
  "fs_rename old new f =
     (case fs_lstat f old of
        None \<Rightarrow> None
      | Some nd \<Rightarrow>
          if fs_lstat f new = Some Directory \<or> nd = Directory \<and> fs_lstat f new \<noteq> None then None
          else Some (map (\<lambda>(q, n). (moved old new q, n)) (AList.delete new f)))"

text \<open>Rename what is there, whatever comes of it, and link; \<open>None\<close> is the fatal error.\<close>

definition relink :: "string \<Rightarrow> string \<Rightarrow> filesys \<Rightarrow> filesys option" where
  "relink me p f =
     (let f = (case fs_rename p (old_name p) f of None \<Rightarrow> f | Some f' \<Rightarrow> f')
      in if parent_exists f p then fs_symlink me p f else None)"

definition install_link :: "string \<Rightarrow> string \<Rightarrow> filesys \<Rightarrow> filesys option" where
  "install_link me p f =
     (if me = p then Some f
      else case fs_lstat f p of
        Some (Symlink dest) \<Rightarrow> if dest \<noteq> me then relink me p f else Some f
      | _ \<Rightarrow> relink me p f)"

fun install_links :: "string \<Rightarrow> string list \<Rightarrow> filesys \<Rightarrow> filesys option" where
  "install_links me [] f = Some f"
| "install_links me (p # ps) f =
     (case install_link me p f of None \<Rightarrow> None | Some f' \<Rightarrow> install_links me ps f')"

definition install :: "string \<Rightarrow> string \<Rightarrow> filesys \<Rightarrow> filesys option" where
  "install me env_path f = install_links me (map (\<lambda>n. base_path env_path @ n) link_names) f"

section \<open>Renaming\<close>

lemma map_of_moved:
  "(\<And>q'. q' \<in> fst ` set m \<Longrightarrow> g q' = k \<longleftrightarrow> q' = k0) \<Longrightarrow>
   map_of (map (\<lambda>(q, n). (g q, n)) m) k = map_of m k0"
proof (induction m)
  case (Cons x m)
  then have "map_of (map (\<lambda>(q, n). (g q, n)) m) k = map_of m k0" "g (fst x) = k \<longleftrightarrow> fst x = k0" by simp_all
  then show ?case by (cases x) auto
qed simp

lemma moved_prefix: "moved old new q \<noteq> q \<Longrightarrow> moved old new q = new \<or> has_prefix (moved old new q) (new @ ''/'')"
  by (auto simp: moved_def has_prefix_iff)

text \<open>The names a rename has nothing to do with.\<close>

definition apart :: "string \<Rightarrow> string \<Rightarrow> bool" where
  "apart q p \<longleftrightarrow> q \<noteq> p \<and> q \<noteq> old_name p \<and> \<not> has_prefix q (p @ ''/'') \<and> \<not> has_prefix q (old_name p @ ''/'')"

lemma moved_apart: "apart q p \<Longrightarrow> moved p (old_name p) q' = q \<longleftrightarrow> q' = q"
proof
  assume a: "apart q p" and m: "moved p (old_name p) q' = q"
  show "q' = q"
  proof (rule ccontr)
    assume "q' \<noteq> q"
    then have "q = old_name p \<or> has_prefix q (old_name p @ ''/'')" using m moved_prefix [of p "old_name p" q'] by simp
    with a show False by (simp add: apart_def)
  qed
qed (simp add: apart_def moved_def)

lemma rename_lookups:
  assumes "fs_rename p (old_name p) f = Some f'"
  shows "fs_lstat f' (old_name p) = fs_lstat f p" "fs_lstat f' p = None" "fs_lstat f p \<noteq> None"
    "apart q p \<Longrightarrow> fs_lstat f' q = fs_lstat f q"
proof -
  have f': "f' = map (\<lambda>(q, n). (moved p (old_name p) q, n)) (AList.delete (old_name p) f)"
    using assms by (auto simp: fs_rename_def split: option.splits if_splits)
  show "fs_lstat f p \<noteq> None" using assms by (auto simp: fs_rename_def split: option.splits)
  have ne: "old_name p \<noteq> p" by (simp add: old_name_def)
  have del: "map_of (AList.delete (old_name p) f) r = (if r = old_name p then None else map_of f r)" for r
    by (simp add: delete_conv')
  have keys: "r \<noteq> old_name p" if "r \<in> fst ` set (AList.delete (old_name p) f)" for r
  proof -
    have "map_of (AList.delete (old_name p) f) r \<noteq> None" using that unfolding map_of_eq_None_iff by simp
    then show ?thesis using del by (auto split: if_splits)
  qed
  have "moved p (old_name p) r = old_name p \<longleftrightarrow> r = p" if "r \<noteq> old_name p" for r
    using that by (auto simp: moved_def has_prefix_iff)
  then have "map_of f' (old_name p) = map_of (AList.delete (old_name p) f) p"
    unfolding f' using keys by (intro map_of_moved) blast
  with ne show "fs_lstat f' (old_name p) = fs_lstat f p" by (simp add: fs_lstat_def del)
  have "moved p (old_name p) r \<noteq> p" for r
    by (auto simp: moved_def old_name_def)
  then have "p \<notin> fst ` set f'" by (auto simp: f' dest: sym)
  then show "fs_lstat f' p = None" by (simp add: fs_lstat_def map_of_eq_None_iff)
  show "fs_lstat f' q = fs_lstat f q" if "apart q p"
  proof -
    have "map_of f' q = map_of (AList.delete (old_name p) f) q"
      unfolding f' by (intro map_of_moved moved_apart that)
    with that show ?thesis by (simp add: fs_lstat_def del apart_def)
  qed
qed

section \<open>One link\<close>

lemma relink_lookups:
  assumes "relink me p f = Some f'"
  shows "fs_lstat f' p = Some (Symlink me)" "fs_lstat f p = Some nd \<Longrightarrow> fs_lstat f' (old_name p) = Some nd"
    "apart q p \<Longrightarrow> fs_lstat f' q = fs_lstat f q"
proof -
  define g where "g = (case fs_rename p (old_name p) f of None \<Rightarrow> f | Some f' \<Rightarrow> f')"
  have g: "fs_lstat g p = None" "f' = AList.update p (Symlink me) g"
    using assms by (auto simp: relink_def g_def Let_def fs_symlink_def split: if_splits)
  have look: "fs_lstat f' r = (if r = p then Some (Symlink me) else fs_lstat g r)" for r
    by (simp add: g(2) fs_lstat_def update_conv')
  then show "fs_lstat f' p = Some (Symlink me)" by simp
  have ne: "old_name p \<noteq> p" by (simp add: old_name_def)
  show "fs_lstat f' (old_name p) = Some nd" if nd: "fs_lstat f p = Some nd"
  proof (cases "fs_rename p (old_name p) f")
    case None
    with g(1) nd show ?thesis by (simp add: g_def)
  next
    case (Some h)
    with rename_lookups(1) [OF Some] nd look ne show ?thesis by (simp add: g_def)
  qed
  show "fs_lstat f' q = fs_lstat f q" if "apart q p"
  proof (cases "fs_rename p (old_name p) f")
    case None
    with look that show ?thesis by (simp add: g_def apart_def)
  next
    case (Some h)
    with rename_lookups(4) [OF Some that] look that show ?thesis by (simp add: g_def apart_def)
  qed
qed

text \<open>What an installed name is: the binary itself, or a link to it.\<close>

definition leads_here :: "string \<Rightarrow> string \<Rightarrow> filesys \<Rightarrow> bool" where
  "leads_here me p f \<longleftrightarrow> p = me \<or> fs_lstat f p = Some (Symlink me)"

text \<open>What was under the name before is kept beside it.\<close>

definition kept :: "string \<Rightarrow> string \<Rightarrow> filesys \<Rightarrow> filesys \<Rightarrow> bool" where
  "kept me p f f' \<longleftrightarrow> (case fs_lstat f p of
     Some nd \<Rightarrow> nd \<noteq> Symlink me \<and> p \<noteq> me \<longrightarrow> fs_lstat f' (old_name p) = Some nd | None \<Rightarrow> True)"

lemma install_link_again: "leads_here me p f \<Longrightarrow> install_link me p f = Some f"
  by (auto simp: leads_here_def install_link_def)

lemma install_link_cases: "\<not> leads_here me p f \<Longrightarrow> install_link me p f = relink me p f"
  by (auto simp: leads_here_def install_link_def split: option.split node.split)

lemma install_link_lookups:
  assumes "install_link me p f = Some f'"
  shows "leads_here me p f'" "kept me p f f'" "apart q p \<Longrightarrow> fs_lstat f' q = fs_lstat f q"
proof -
  have "leads_here me p f' \<and> kept me p f f' \<and> (apart q p \<longrightarrow> fs_lstat f' q = fs_lstat f q)"
  proof (cases "leads_here me p f")
    case True
    with assms have "f' = f" by (simp add: install_link_again)
    with True show ?thesis by (auto simp: leads_here_def kept_def split: option.split)
  next
    case False
    with assms have "relink me p f = Some f'" by (simp add: install_link_cases)
    from relink_lookups [OF this] show ?thesis
      by (auto simp: leads_here_def kept_def split: option.split)
  qed
  then show "leads_here me p f'" "kept me p f f'" "apart q p \<Longrightarrow> fs_lstat f' q = fs_lstat f q" by blast+
qed

section \<open>All links\<close>

definition all_apart :: "string list \<Rightarrow> bool" where
  "all_apart ps \<longleftrightarrow> (\<forall>p\<in>set ps. \<forall>q\<in>set ps. p \<noteq> q \<longrightarrow> apart q p \<and> apart (old_name q) p) \<and> distinct ps"

lemma install_links_apart:
  "install_links me ps f = Some f' \<Longrightarrow> (\<And>p. p \<in> set ps \<Longrightarrow> apart q p) \<Longrightarrow> fs_lstat f' q = fs_lstat f q"
proof (induction ps arbitrary: f)
  case (Cons p ps)
  then obtain g where g: "install_link me p f = Some g" "install_links me ps g = Some f'"
    by (auto split: option.splits)
  have "apart q r" if "r \<in> set ps" for r using Cons.prems(2) that by simp
  then have "fs_lstat f' q = fs_lstat g q" by (rule Cons.IH [OF g(2)])
  also have "\<dots> = fs_lstat f q" using install_link_lookups(3) [OF g(1)] Cons.prems(2) by simp
  finally show ?case .
qed simp

lemma install_links_done:
  "install_links me ps f = Some f' \<Longrightarrow> all_apart ps \<Longrightarrow> p \<in> set ps \<Longrightarrow> leads_here me p f' \<and> kept me p f f'"
proof (induction ps arbitrary: f)
  case (Cons r ps)
  then obtain g where g: "install_link me r f = Some g" "install_links me ps g = Some f'"
    by (auto split: option.splits)
  have ap: "all_apart ps" using Cons.prems(2) by (simp add: all_apart_def)
  show ?case
  proof (cases "p = r")
    case True
    have "apart p q" "apart (old_name p) q" if "q \<in> set ps" for q
      using Cons.prems(2) that True by (auto simp: all_apart_def)
    then have "fs_lstat f' p = fs_lstat g p" "fs_lstat f' (old_name p) = fs_lstat g (old_name p)"
      using install_links_apart [OF g(2)] by blast+
    with True install_link_lookups(1,2) [OF g(1)] show ?thesis by (simp add: leads_here_def kept_def cong: option.case_cong)
  next
    case False
    with Cons.prems(3) have "p \<in> set ps" by simp
    then have "leads_here me p f'" "kept me p g f'" using Cons.IH [OF g(2) ap] by blast+
    moreover have "fs_lstat g p = fs_lstat f p"
      using Cons.prems(2,3) False by (intro install_link_lookups(3) [OF g(1)]) (simp add: all_apart_def)
    ultimately show ?thesis by (simp add: kept_def)
  qed
qed simp

lemma install_links_again: "(\<And>p. p \<in> set ps \<Longrightarrow> leads_here me p f) \<Longrightarrow> install_links me ps f = Some f"
  by (induction ps) (simp_all add: install_link_again)

lemma prefix_same [simp]: "has_prefix (b @ x) (b @ y) \<longleftrightarrow> has_prefix x y"
  by (induction b) simp_all

lemma links_apart: "all_apart (map (\<lambda>n. b @ n) link_names)"
  unfolding all_apart_def apart_def old_name_def link_names_def
  by (simp add: inj_on_def)

text \<open>
  C33. When the installation succeeds, every name is a link to the running binary, or the binary itself;
  whatever else was under a name is now under the name with \<open>.old\<close> appended, where it replaces what
  was there; no other path has changed; and to install once more changes nothing.
\<close>

theorem install_idempotent:
  assumes "install me env_path f = Some f'"
  shows "(\<forall>n\<in>set link_names. leads_here me (base_path env_path @ n) f' \<and> kept me (base_path env_path @ n) f f') \<and>
    (\<forall>q. (\<forall>n\<in>set link_names. apart q (base_path env_path @ n)) \<longrightarrow> fs_lstat f' q = fs_lstat f q) \<and>
    install me env_path f' = Some f'"
proof (intro conjI)
  let ?ps = "map (\<lambda>n. base_path env_path @ n) link_names"
  have all: "leads_here me p f' \<and> kept me p f f'" if "p \<in> set ?ps" for p
    using assms links_apart that unfolding install_def by (rule install_links_done)
  then show "install me env_path f' = Some f'"
    unfolding install_def by (intro install_links_again) blast
  from all show "\<forall>n\<in>set link_names. leads_here me (base_path env_path @ n) f' \<and> kept me (base_path env_path @ n) f f'"
    by simp
  show "\<forall>q. (\<forall>n\<in>set link_names. apart q (base_path env_path @ n)) \<longrightarrow> fs_lstat f' q = fs_lstat f q"
  proof (intro allI impI)
    show "fs_lstat f' q = fs_lstat f q" if "\<forall>n\<in>set link_names. apart q (base_path env_path @ n)" for q
      by (rule install_links_apart [OF assms [unfolded install_def]]) (use that in auto)
  qed
qed

definition bin_fs :: filesys where
  "bin_fs = [(''/usr/bin'', Directory), (''/usr/bin/service'', RegFile ''old''), (''/usr/bin/init'', Symlink ''/lib/init'')]"

lemma install_idempotent_witness:
  "\<exists>f'. install ''/opt/ds'' ''/opt:/usr/bin'' bin_fs = Some f' \<and>
     fs_lstat f' ''/usr/bin/service'' = Some (Symlink ''/opt/ds'') \<and>
     fs_lstat f' ''/usr/bin/service.old'' = Some (RegFile ''old'') \<and>
     install ''/opt/ds'' ''/opt:/usr/bin'' f' = Some f'"
proof -
  have base: "base_path ''/opt:/usr/bin'' = ''/usr/bin''" by code_simp
  have "install ''/opt/ds'' ''/opt:/usr/bin'' bin_fs \<noteq> None" by code_simp
  then obtain f' where f': "install ''/opt/ds'' ''/opt:/usr/bin'' bin_fs = Some f'" by blast
  from install_idempotent [OF f'] have i: "install ''/opt/ds'' ''/opt:/usr/bin'' f' = Some f'"
    "leads_here ''/opt/ds'' ''/usr/bin/service'' f'" "kept ''/opt/ds'' ''/usr/bin/service'' bin_fs f'"
    by (simp_all add: base link_names_def)
  then have "fs_lstat f' ''/usr/bin/service'' = Some (Symlink ''/opt/ds'')"
    "fs_lstat f' ''/usr/bin/service.old'' = Some (RegFile ''old'')"
    by (simp_all add: leads_here_def kept_def bin_fs_def fs_lstat_def old_name_def)
  with f' i show ?thesis by blast
qed

text \<open>
  Only one copy is kept: when the binary has moved and installs itself again, the program that the
  first installation saved is overwritten by the old link.
\<close>

lemma reinstall_loses_original:
  "case install ''/opt/ds'' ''/usr/bin'' bin_fs of
     Some f \<Rightarrow> (case install ''/opt/new'' ''/usr/bin'' f of
       Some f' \<Rightarrow> fs_lstat f ''/usr/bin/service.old'' = Some (RegFile ''old'') \<and>
         fs_lstat f' ''/usr/bin/service.old'' = Some (Symlink ''/opt/ds'') \<and> RegFile ''old'' \<notin> snd ` set f'
     | None \<Rightarrow> False)
   | None \<Rightarrow> False"
  by code_simp

section \<open>The names\<close>

lemma base_part_name: "CHR ''/'' \<notin> set n \<Longrightarrow> base_part (d @ CHR ''/'' # n) = n"
  using base_part_join [of n d] by (simp add: path_join_def)

text \<open>
  C36. What the binary is under every name that the installation links: \<open>journalctl\<close> is the viewer,
  \<open>systemctl\<close> the client (or the version), \<open>poweroff\<close> and \<open>shutdown\<close> a client that asks for a poweroff
  whatever their arguments are, \<open>service NAME COMMAND\<close> a client that asks the same as
  \<open>systemctl COMMAND NAME\<close>, \<open>systemd\<close> and \<open>init\<close> the init process; and process 1 is the init process
  under every name.
\<close>

theorem names_dispatch:
  assumes "pid \<noteq> 1"
  shows "dispatch pid v ((dir @ ''/journalctl'') # args) = Done Journal \<and>
    dispatch pid v ((dir @ ''/systemctl'') # args) =
      Done (if args = [''version''] then PrintVersion (trim v [CHR 0x0D, CHR 0x0A, CHR 0x09, CHR 0x20])
            else Client ((dir @ ''/systemctl'') # args)) \<and>
    dispatch pid v ((dir @ ''/poweroff'') # args) = Done (Client [dir @ ''/poweroff'', ''poweroff'']) \<and>
    dispatch pid v ((dir @ ''/shutdown'') # args) = Done (Client [dir @ ''/shutdown'', ''poweroff'']) \<and>
    dispatch pid v ((dir @ ''/service'') # name # cmd # rest) = Done (Client ((dir @ ''/service'') # cmd # name # rest)) \<and>
    dispatch pid v ((dir @ ''/systemd'') # args) = Done Boot \<and>
    dispatch pid v ((dir @ ''/init'') # args) = Done Boot \<and>
    dispatch 1 v (arg0 # args) = Done Boot"
proof -
  have "length (a # args) = 2 \<and> (a # args) ! 1 = ''version'' \<longleftrightarrow> args = [''version'']" for a :: string
    by (cases args) auto
  with assms show ?thesis by (simp add: dispatch_def Let_def base_part_name)
qed

lemma names_dispatch_witness:
  "dispatch 7 ''1.0'' [''/usr/bin/service'', ''web'', ''restart''] = Done (Client [''/usr/bin/service'', ''restart'', ''web'']) \<and>
   dispatch 7 ''1.0'' [''/sbin/shutdown'', ''-h'', ''now''] = Done (Client [''/sbin/shutdown'', ''poweroff''])"
  using names_dispatch [of 7 "''1.0''" "''/usr/bin''" "[]" "''web''" "''restart''" "[]" "''x''"]
    names_dispatch [of 7 "''1.0''" "''/sbin''" "[''-h'', ''now'']" "''web''" "''restart''" "[]" "''x''"] by simp

end
