(* ===== verification/Journal.thy ===== *)
theory Journal
  imports DaemonFiles
begin

text \<open>
  The log of a service: the writer of \<open>systemd/daemons/logger.go\<close> and the viewer of
  \<open>journalctl/main.go\<close>, with what they use of Go's package \<open>time\<close>.

  \<^item> A time is the number of nanoseconds since the year 1 in UTC, so that the zero \<open>time.Time\<close> is 0.
  \<^item> The options come from the command line parser, a library, and are an argument.
  \<^item> The viewer never starts a pager: it sets \<open>NoPager\<close> itself. \<open>tail\<close> is another program; the result says
    with which arguments it is run.
\<close>

section \<open>\<open>time.Parse\<close>\<close>

datatype chunk = Lit char | LongYear | ZeroMonth | ZeroDay | Hour | ZeroMinute | ZeroSecond | ISO8601ColonTZ

definition DateTime :: "chunk list" where
  "DateTime = [LongYear, Lit (CHR ''-''), ZeroMonth, Lit (CHR ''-''), ZeroDay, Lit (CHR '' ''),
     Hour, Lit (CHR '':''), ZeroMinute, Lit (CHR '':''), ZeroSecond]"

definition RFC3339 :: "chunk list" where
  "RFC3339 = [LongYear, Lit (CHR ''-''), ZeroMonth, Lit (CHR ''-''), ZeroDay, Lit (CHR ''T''),
     Hour, Lit (CHR '':''), ZeroMinute, Lit (CHR '':''), ZeroSecond, ISO8601ColonTZ]"

record tm =
  tyear :: int
  tmonth :: int
  tday :: int
  thour :: int
  tmin :: int
  tsec :: int
  tnsec :: int
  toffset :: int

text \<open>\<open>getnum\<close>: two digits, or one if that is allowed.\<close>

fun getnum :: "bool \<Rightarrow> string \<Rightarrow> (int \<times> string) option" where
  "getnum fixed [] = None"
| "getnum fixed [c] = (if is_digit c \<and> \<not> fixed then Some (digit_val c, []) else None)"
| "getnum fixed (c # d # r) =
     (if \<not> is_digit c then None
      else if is_digit d then Some (10 * digit_val c + digit_val d, r)
      else if fixed then None else Some (digit_val c, d # r))"

definition ranged :: "int \<Rightarrow> int \<Rightarrow> (int \<times> string) option \<Rightarrow> (int \<times> string) option" where
  "ranged lo hi x = (case x of None \<Rightarrow> None | Some (n, r) \<Rightarrow> if lo \<le> n \<and> n \<le> hi then Some (n, r) else None)"

text \<open>\<open>skip\<close>: a space of the layout stands for any number of spaces, and for none at the end.\<close>

definition skip :: "char \<Rightarrow> string \<Rightarrow> string option" where
  "skip c s =
     (if c = CHR '' '' then
        (if s \<noteq> [] \<and> hd s \<noteq> CHR '' '' then None else Some (dropWhile (\<lambda>x. x = CHR '' '') s))
      else if s \<noteq> [] \<and> hd s = c then Some (tl s) else None)"

text \<open>A fraction after the seconds is read although the layout has none.\<close>

definition fraction_digits :: "string \<Rightarrow> string" where
  "fraction_digits s = (if s \<noteq> [] \<and> hd s \<in> {CHR ''.'', CHR '',''} then takeWhile is_digit (tl s) else [])"

definition nanoseconds :: "string \<Rightarrow> int" where
  "nanoseconds ds = digits_val 0 (take 9 ds) * 10 ^ (9 - length (take 9 ds))"

definition zone :: "string \<Rightarrow> (int \<times> string) option" where
  "zone s =
     (if s \<noteq> [] \<and> hd s = CHR ''Z'' then Some (0, tl s)
      else if length s < 6 \<or> s ! 3 \<noteq> CHR '':'' then None
      else case (ranged 0 24 (getnum True (take 2 (drop 1 s))), ranged 0 60 (getnum True (take 2 (drop 4 s)))) of
        (Some (hr, _), Some (mm, _)) \<Rightarrow>
          let off = (hr * 60 + mm) * 60 in
          if hd s = CHR ''+'' then Some (off, drop 6 s)
          else if hd s = CHR ''-'' then Some (- off, drop 6 s) else None
      | _ \<Rightarrow> None)"

fun parse_chunk :: "chunk \<Rightarrow> string \<Rightarrow> tm \<Rightarrow> (tm \<times> string) option" where
  "parse_chunk (Lit c) s t = map_option (\<lambda>r. (t, r)) (skip c s)"
| "parse_chunk LongYear s t =
     (if length s < 4 \<or> \<not> list_all is_digit (take 4 s) then None
      else Some (t\<lparr>tyear := digits_val 0 (take 4 s)\<rparr>, drop 4 s))"
| "parse_chunk ZeroMonth s t = map_option (\<lambda>(n, r). (t\<lparr>tmonth := n\<rparr>, r)) (ranged 1 12 (getnum True s))"
| "parse_chunk ZeroDay s t = map_option (\<lambda>(n, r). (t\<lparr>tday := n\<rparr>, r)) (getnum True s)"
| "parse_chunk Hour s t = map_option (\<lambda>(n, r). (t\<lparr>thour := n\<rparr>, r)) (ranged 0 23 (getnum False s))"
| "parse_chunk ZeroMinute s t = map_option (\<lambda>(n, r). (t\<lparr>tmin := n\<rparr>, r)) (ranged 0 59 (getnum True s))"
| "parse_chunk ZeroSecond s t =
     map_option (\<lambda>(n, r).
       let ds = fraction_digits r in
       if ds = [] then (t\<lparr>tsec := n\<rparr>, r)
       else (t\<lparr>tsec := n, tnsec := nanoseconds ds\<rparr>, drop (1 + length ds) r)) (ranged 0 59 (getnum True s))"
| "parse_chunk ISO8601ColonTZ s t = map_option (\<lambda>(n, r). (t\<lparr>toffset := n\<rparr>, r)) (zone s)"

fun parse_chunks :: "chunk list \<Rightarrow> string \<Rightarrow> tm \<Rightarrow> tm option" where
  "parse_chunks [] s t = (if s = [] then Some t else None)"
| "parse_chunks (c # cs) s t =
     (case parse_chunk c s t of None \<Rightarrow> None | Some (t', r) \<Rightarrow> parse_chunks cs r t')"

definition leap :: "int \<Rightarrow> bool" where
  "leap y \<longleftrightarrow> y mod 4 = 0 \<and> (y mod 100 \<noteq> 0 \<or> y mod 400 = 0)"

definition month_days :: "int \<Rightarrow> int list" where
  "month_days y = [31, if leap y then 29 else 28, 31, 30, 31, 30, 31, 31, 30, 31, 30, 31]"

definition days_in :: "int \<Rightarrow> int \<Rightarrow> int" where
  "days_in m y = month_days y ! nat (m - 1)"

definition instant :: "tm \<Rightarrow> int" where
  "instant t =
     (let y = tyear t - 1;
          days = 365 * y + y div 4 - y div 100 + y div 400 +
            sum_list (take (nat (tmonth t - 1)) (month_days (tyear t))) + tday t - 1
      in (((days * 24 + thour t) * 60 + tmin t) * 60 + tsec t - toffset t) * 1000000000 + tnsec t)"

definition time_parse :: "chunk list \<Rightarrow> string \<Rightarrow> int option" where
  "time_parse layout s =
     (case parse_chunks layout s \<lparr>tyear = 0, tmonth = 1, tday = 1, thour = 0, tmin = 0, tsec = 0, tnsec = 0, toffset = 0\<rparr> of
        None \<Rightarrow> None
      | Some t \<Rightarrow> if tday t < 1 \<or> tday t > days_in (tmonth t) (tyear t) then None else Some (instant t))"

section \<open>The viewer\<close>

record opts =
  Since :: string
  Until :: string
  Boot :: bool
  UnitName :: string
  Lines :: int
  Follow :: bool
  Help :: bool

datatype viewer_error = UnitRequired | LogNotAccessible | WrongSince | WrongUntil

datatype line = Out string | TimeFormatError string

datatype view =
    Usage
  | Fatal viewer_error
  | Tail "string list"
  | Shown "line list"

text \<open>The loop over the lines of the log; times that are not set are 0.\<close>

fun show_lines :: "int \<Rightarrow> int \<Rightarrow> string list \<Rightarrow> line list" where
  "show_lines since until [] = []"
| "show_lines since until (line # lines) =
     (if since \<noteq> 0 \<and> until \<noteq> 0 then
        if length line < 19 then show_lines since until lines
        else
          (let parsed = time_parse DateTime (take 19 line);
               ts = (case parsed of None \<Rightarrow> 0 | Some t \<Rightarrow> t);
               err = (if parsed = None then [TimeFormatError line] else [])
           in if ts < since then err @ show_lines since until lines
              else if ts > until then err
              else err @ Out line # show_lines since until lines)
      else Out line # show_lines since until lines)"

definition log_file :: "string \<Rightarrow> string" where
  "log_file unit = path_join log_path (get_unit_log_path unit)"

definition time_option :: "string \<Rightarrow> int option" where
  "time_option s = (if s = [] then Some 0 else time_parse DateTime s)"

definition boot_since :: "filesys \<Rightarrow> int \<Rightarrow> int" where
  "boot_since f since =
     (case fs_read_file f boot_file of
        None \<Rightarrow> since
      | Some c \<Rightarrow>
          case time_parse RFC3339 c of
            None \<Rightarrow> since
          | Some t \<Rightarrow> if t \<noteq> 0 \<and> (since = 0 \<or> t > since) then t else since)"

definition journalctl :: "filesys \<Rightarrow> opts \<Rightarrow> view" where
  "journalctl f opt =
     (if Help opt then Usage
      else if UnitName opt = [] then Fatal UnitRequired
      else if \<not> fs_exists f (log_file (UnitName opt)) then Fatal LogNotAccessible
      else case time_option (Since opt) of
        None \<Rightarrow> Fatal WrongSince
      | Some since \<Rightarrow>
          case time_option (Until opt) of
            None \<Rightarrow> Fatal WrongUntil
          | Some until \<Rightarrow>
              let since = (if Boot opt then boot_since f since else since) in
              if Follow opt then
                Tail [''-n'', itoa (if Lines opt = 0 then 10 else Lines opt), ''-f'', log_file (UnitName opt)]
              else if Lines opt > 0 then Tail [''-n'', itoa (Lines opt)]
              else case fs_open_lines f (log_file (UnitName opt)) of
                None \<Rightarrow> Fatal LogNotAccessible
              | Some content \<Rightarrow> Shown (show_lines since until (scan_lines content)))"

section \<open>The writer\<close>

record logger =
  lfile :: "string option"
  lout :: bool

text \<open>\<open>NewLogger\<close>: the file is made if it does not exist.\<close>

definition new_log :: "bool \<Rightarrow> bool \<Rightarrow> string \<Rightarrow> filesys \<Rightarrow> (logger \<times> filesys) option" where
  "new_log to_stderr to_file service f =
     (let dest = log_file service in
      if \<not> to_file then Some (\<lparr>lfile = None, lout = to_stderr\<rparr>, f)
      else case fs_read_file f dest of
        Some _ \<Rightarrow> Some (\<lparr>lfile = Some dest, lout = to_stderr\<rparr>, f)
      | None \<Rightarrow> map_option (\<lambda>f'. (\<lparr>lfile = Some dest, lout = to_stderr\<rparr>, f')) (fs_write_file dest [] f))"

text \<open>\<open>Write\<close>: the lines for standard error, and the files; the file is the one that was opened.\<close>

definition log_write :: "logger \<Rightarrow> string \<Rightarrow> filesys \<Rightarrow> string list \<times> filesys" where
  "log_write l p f =
     (if lout l then map (\<lambda>x. trim_right x [CHR 0x0D, CHR 0x0A]) (filter (\<lambda>x. x \<noteq> []) (split_at (CHR 0x0A) p)) else [],
      case lfile l of
        None \<Rightarrow> f
      | Some dest \<Rightarrow>
          case fs_resolve f dest of
            Some (q, RegFile c) \<Rightarrow> fs_write q (c @ p) f
          | _ \<Rightarrow> f)"

section \<open>Filtering by time\<close>

definition stamp :: "string \<Rightarrow> int" where
  "stamp line = (case time_parse DateTime (take 19 line) of None \<Rightarrow> 0 | Some t \<Rightarrow> t)"

text \<open>What the viewer is to show: every line with a time between the two.\<close>

definition between :: "int \<Rightarrow> int \<Rightarrow> string list \<Rightarrow> line list" where
  "between since until lines = map Out (filter (\<lambda>l. since \<le> stamp l \<and> stamp l \<le> until) lines)"

definition stamped :: "string \<Rightarrow> bool" where
  "stamped line \<longleftrightarrow> time_parse DateTime (take 19 line) \<noteq> None"

text \<open>
  C32. The loop that stops at the first line after the interval shows exactly the lines of the interval,
  if every line begins with a time and the times do not decrease.
\<close>

theorem show_lines_between:
  assumes "since \<noteq> 0" "until \<noteq> 0" "list_all (\<lambda>l. stamped l \<and> 19 \<le> length l) lines" "sorted (map stamp lines)"
  shows "show_lines since until lines = between since until lines"
  using assms(3,4)
proof (induction lines)
  case (Cons l lines)
  then have IH: "show_lines since until lines = between since until lines" by simp
  have l: "\<not> length l < 19" "\<exists>t. time_parse DateTime (take 19 l) = Some t \<and> stamp l = t"
    using Cons.prems(1) by (auto simp: stamped_def stamp_def)
  have "between since until lines = []" if "until < stamp l"
    using Cons.prems(2) that by (auto simp: between_def filter_empty_conv)
  then show ?case using l IH assms(1,2) by (auto simp: between_def Let_def)
qed (simp add: between_def)

text \<open>
  C35. The options are not filters on their own: unless both the beginning and the end are set, every
  line is shown, so that \<open>--since\<close>, \<open>--until\<close> and \<open>--boot\<close> alone have no effect. The log itself has no
  times: with both set, a log whose lines do not begin with one shows nothing but errors.
\<close>

theorem time_options_need_each_other:
  "(since = 0 \<or> until = 0 \<longrightarrow> show_lines since until lines = map Out lines) \<and>
   (0 < since \<and> until \<noteq> 0 \<and> list_all (\<lambda>l. \<not> stamped l) lines \<longrightarrow>
      show_lines since until lines = map TimeFormatError (filter (\<lambda>l. 19 \<le> length l) lines))"
proof (intro conjI impI)
  show "show_lines since until lines = map Out lines" if "since = 0 \<or> until = 0"
    using that by (induction lines) auto
  show "show_lines since until lines = map TimeFormatError (filter (\<lambda>l. 19 \<le> length l) lines)"
    if "0 < since \<and> until \<noteq> 0 \<and> list_all (\<lambda>l. \<not> stamped l) lines"
    using that by (induction lines) (auto simp: stamped_def Let_def)
qed

section \<open>Writing and viewing\<close>

lemma follow_write:
  "fs_follow n f p = Some (q, RegFile c) \<Longrightarrow> fs_follow n (fs_write q c' f) p = Some (q, RegFile c')"
  by (induction n f p rule: fs_follow.induct)
    (auto simp: fs_write_def fs_lstat_def gm.get_put split: option.splits node.splits if_splits)

lemma log_write_reads:
  assumes "fs_read_file f dest = Some c" "lfile l = Some dest"
  shows "fs_read_file (snd (log_write l p f)) dest = Some (c @ p)"
proof -
  obtain q where q: "fs_resolve f dest = Some (q, RegFile c)"
    using assms(1) by (auto simp: fs_read_file_def split: option.splits node.splits)
  then have "fs_resolve (fs_write q (c @ p) f) dest = Some (q, RegFile (c @ p))"
    unfolding fs_resolve_def by (rule follow_write)
  with q assms(2) show ?thesis by (simp add: log_write_def fs_read_file_def)
qed

lemma log_writes_read:
  "fs_read_file f dest = Some c \<Longrightarrow> lfile l = Some dest \<Longrightarrow>
   fs_read_file (fold (\<lambda>p f. snd (log_write l p f)) ps f) dest = Some (c @ concat ps)"
  by (induction ps arbitrary: f c) (simp_all add: log_write_reads)

lemma read_opens:
  assumes "fs_read_file f p = Some c"
  shows "fs_open_lines f p = Some c \<and> fs_exists f p"
  using assms by (auto simp: fs_read_file_def fs_open_lines_def fs_exists_def split: option.splits node.splits)

definition plain_opts :: "string \<Rightarrow> opts" where
  "plain_opts unit = \<lparr>Since = [], Until = [], Boot = False, UnitName = unit, Lines = 0, Follow = False, Help = False\<rparr>"

text \<open>A line the scanner hands on as it is: at most 65535 bytes, without a carriage return at its end.\<close>

definition log_line :: "string \<Rightarrow> bool" where
  "log_line l \<longleftrightarrow> CHR 0x0A \<notin> set l \<and> length l \<le> 65535 \<and> (l = [] \<or> last l \<noteq> CHR 0x0D)"

lemma scan_log:
  assumes "list_all log_line ls" "log_line rest"
  shows "scan_lines (concat (map (\<lambda>x. x @ [CHR 0x0A]) ls) @ rest) = (if rest = [] then ls else ls @ [rest])"
proof -
  have ok: "CHR 0x0A \<notin> set x" "int (length x) \<le> max_line" "drop_cr x = x" if "x \<in> set (rest # ls)" for x
    using that assms by (auto simp: log_line_def list_all_iff max_line_def drop_cr_def trim_suffix_def has_suffix_last)
  have "list_all (\<lambda>x. CHR 0x0A \<notin> set x) ls" using ok(1) by (simp add: list_all_iff)
  then have "split_at (CHR 0x0A) (concat (map (\<lambda>x. x @ [CHR 0x0A]) ls) @ rest) = ls @ [rest]"
    using split_at_none [OF ok(1) [of rest]] by (induction ls) (simp_all add: split_at_append)
  then have "scan_lines (concat (map (\<lambda>x. x @ [CHR 0x0A]) ls) @ rest) =
      map drop_cr (takeWhile (\<lambda>x. int (length x) \<le> max_line) (if rest = [] then ls else ls @ [rest]))"
    by (simp add: scan_lines_def)
  moreover have "map drop_cr (takeWhile (\<lambda>x. int (length x) \<le> max_line) xs) = xs" if "set xs \<subseteq> set (rest # ls)" for xs
  proof -
    have tw: "takeWhile (\<lambda>x. int (length x) \<le> max_line) xs = xs" using ok(2) that by (auto simp: takeWhile_eq_all_conv)
    show ?thesis unfolding tw by (rule map_idI) (use ok(3) that in blast)
  qed
  moreover have "set (if rest = [] then ls else ls @ [rest]) \<subseteq> set (rest # ls)" by auto
  ultimately show ?thesis by (simp only:)
qed

text \<open>
  C31. What a service writes is what the viewer shows: if the log and everything written through its
  logger are, put together, the lines \<open>ls\<close>, none of them 64 KiB long, then \<open>journalctl -u\<close> shows exactly
  these lines, wherever the writes cut them, and whether or not the last line has been ended.
\<close>

theorem log_is_shown:
  assumes "unit \<noteq> []" "lfile l = Some (log_file unit)" "fs_read_file f (log_file unit) = Some c"
    and "list_all log_line ls"
    and "c @ concat ps = concat (map (\<lambda>x. x @ [CHR 0x0A]) ls) @ rest"
    and "log_line rest"
  shows "journalctl (fold (\<lambda>p f. snd (log_write l p f)) ps f) (plain_opts unit) =
    Shown (map Out (if rest = [] then ls else ls @ [rest]))"
proof -
  let ?f = "fold (\<lambda>p f. snd (log_write l p f)) ps f"
  have "fs_read_file ?f (log_file unit) = Some (c @ concat ps)" using assms(3,2) by (rule log_writes_read)
  from read_opens [OF this] have "journalctl ?f (plain_opts unit) = Shown (show_lines 0 0 (scan_lines (c @ concat ps)))"
    using assms(1) by (simp add: journalctl_def plain_opts_def time_option_def)
  moreover have "show_lines 0 0 ls = map Out ls" for ls by (induction ls) simp_all
  moreover have "scan_lines (c @ concat ps) = (if rest = [] then ls else ls @ [rest])"
    unfolding assms(5) by (rule scan_log) (use assms(4,6) in auto)
  ultimately show ?thesis by simp
qed

definition log_fs :: filesys where
  "log_fs = [(''/var/log/services/web.log'', RegFile [])]"

lemma log_is_shown_witness:
  "journalctl (fold (\<lambda>p f. snd (log_write \<lparr>lfile = Some (log_file ''web.service''), lout = False\<rparr> p f)) [''up'', ''date'' @ [CHR 0x0A], ''ok''] log_fs)
     (plain_opts ''web.service'') = Shown [Out ''update'', Out ''ok'']"
proof -
  have "fs_read_file log_fs (log_file ''web.service'') = Some []" by code_simp
  moreover have "list_all log_line [''update'']" "log_line ''ok''" by (simp_all add: log_line_def)
  ultimately show ?thesis
    using log_is_shown [of "''web.service''" "\<lparr>lfile = Some (log_file ''web.service''), lout = False\<rparr>" log_fs "[]"
      "[''update'']" "[''up'', ''date'' @ [CHR 0x0A], ''ok'']" "''ok''"] by simp
qed

lemma show_lines_between_witness:
  "show_lines 1 63713433600000000001 [''2020-01-01 00:00:00 up'', ''2021-01-01 00:00:00 down''] =
   [Out ''2020-01-01 00:00:00 up'']"
proof -
  have t: "time_parse DateTime ''2020-01-01 00:00:00'' = Some 63713433600000000000"
    "time_parse DateTime ''2021-01-01 00:00:00'' = Some 63745056000000000000" by code_simp+
  then show ?thesis
    using show_lines_between [of 1 63713433600000000001 "[''2020-01-01 00:00:00 up'', ''2021-01-01 00:00:00 down'']"]
    by (simp add: stamped_def stamp_def between_def)
qed

lemma time_options_need_each_other_witness:
  "show_lines 5 0 [''up''] = [Out ''up'']"
  using time_options_need_each_other [of 5 0 "[''up'']"] by simp

end
