(* ===== verification/Spec2Isabelle.thy ===== *)
theory Spec2Isabelle
  imports Prelude GoStrings Durations PidTracker Common Protocol UnitFile FileSys SysState
    Registry Linking RegistryInv UnitRender GoBody DaemonRun StopProps
    StartProps StartRuns StartTerm DaemonFiles Commands Monitor ProcWait
    Server Launcher Journal
begin

text \<open>
  A verification development for docker-systemd, an init process for containers that behaves like
  systemd: one Go binary that, depending on the name it is called by, is the init process, the control
  client \<open>systemctl\<close> or the log viewer \<open>journalctl\<close>. File names below are relative to \<open>src/\<close>.

  \<^bold>\<open>The program.\<close> \<open>main.go\<close> dispatches on the name and, as the init process, links the names to itself and
  runs \<open>systemd/main.go\<close>. That process reads the unit files (\<open>systemd/daemons/daemons.go\<close>, \<open>unit.go\<close>),
  starts the enabled services (\<open>daemon.go\<close>), reaps every process of the container
  (\<open>procwait/procwait.go\<close>), follows the processes that services fork (\<open>systemd/pidtracker/pidtracker.go\<close>,
  told over a socket by the library of \<open>forkpreload/preload.c\<close>), and serves the commands
  (\<open>systemd/command.go\<close>) that \<open>systemctl/main.go\<close> sends over a socket. The services write to log files
  (\<open>logger.go\<close>) that \<open>journalctl/main.go\<close> shows. \<open>shutdown.go\<close> stops everything.

  \<^bold>\<open>Theories.\<close>
  \<^item> \<open>Prelude\<close>: Go maps as association lists, calls that return, panic or block (\<open>outcome\<close>), the locales
    \<open>keyed_store\<close> and \<open>transition_system\<close>. \<open>GoStrings\<close>: package \<open>strings\<close> and \<open>strconv\<close>.
    \<open>FileSys\<close>: files, directories and links as package \<open>os\<close> answers.
  \<^item> \<open>Common\<close>: \<open>common/common.go\<close>. \<open>Protocol\<close>: both ends of the control socket, on bytes; every request within
    the limits reaches the server unchanged, and every reply the client.
  \<^item> \<open>UnitFile\<close>, \<open>Durations\<close>: \<open>loadUnitFile\<close> with all its keys, and \<open>parseSystemdDuration\<close> on 64-bit words with its
    wrap-around; what a document means, and the bounds and the value of a parsed duration. \<open>UnitRender\<close>:
    a definition written with the documented keys is read back as itself.
  \<^item> \<open>PidTracker\<close>: the tracker's relation; \<open>find\<close> returns exactly the adopted descendants, and returns if and only
    if no cycle can be reached.
  \<^item> \<open>SysState\<close>: the state of the init process; \<open>Registry\<close>: \<open>Reload\<close>, \<open>Find\<close> and \<open>List\<close> of \<open>daemons.go\<close>.
    \<open>Linking\<close> and \<open>RegistryInv\<close>: when the linking returns and what it makes of the dependencies, the invariant
    \<open>registry_ok\<close> that \<open>Reload\<close> keeps, the states it goes through while it reads (\<open>reading\<close>), and the
    reading of one unit file on its success and error path.
  \<^item> \<open>GoBody\<close>: Go method bodies with early returns as a state monad, the world outside as the record \<open>env\<close>, and
    the frame logic (\<open>body_frame\<close>) that the invariants are proved with. \<open>DaemonRun\<close>: \<open>start\<close>, \<open>stop\<close>, \<open>Restart\<close>,
    \<open>Reload\<close> of \<open>daemon.go\<close>, \<open>LoadAndStart\<close> and \<open>StopAll\<close> of \<open>daemons.go\<close>.
  \<^item> \<open>StopProps\<close>, \<open>StartProps\<close>, \<open>StartRuns\<close>, \<open>StartTerm\<close>: what a stop and a start do in order, the results of a
    stop under any interference, what both leave alone, and when a start ends: if its dependencies can be
    ranked so that neither they nor the locks it holds make a cycle.
  \<^item> \<open>DaemonFiles\<close>: \<open>Enable\<close>, \<open>Disable\<close>, \<open>Mask\<close>, instances, \<open>Status\<close>. \<open>Commands\<close>: \<open>command.go\<close>; the commands on
    named services refine a specification of the exit code and of the effect. \<open>Monitor\<close>: \<open>monitorCmds\<close>,
    \<open>monitorNeeded\<close> and \<open>handleStopDeps\<close> of \<open>daemon.go\<close>, with the restart policy.
  \<^item> \<open>ProcWait\<close>: \<open>procwait.go\<close> as a step relation of callers, reapers, kernel and other processes: no wake-up is
    lost, every answer is right, in a fair run (\<open>fair_run\<close>) every caller whose process is reaped is answered,
    and how the last reaper ends.
  \<^item> \<open>Server\<close>: \<open>systemd/main.go\<close> and \<open>shutdown.go\<close> around all this. \<open>Launcher\<close>: \<open>main.go\<close>. \<open>Journal\<close>: \<open>logger.go\<close> and
    \<open>journalctl/main.go\<close>, with \<open>time.Parse\<close>.

  \<^bold>\<open>Correspondence.\<close> A \<open>*daemon\<close> is an address in \<open>heap\<close>, the registry \<open>ds.list\<close> is \<open>dlist\<close>, a mutex that a call
  chain holds across another call is in \<open>locks\<close>, and taking it again is a deadlock (\<open>Crash\<close>). A \<open>range\<close> over a
  Go map takes its order as an argument (\<open>range_order\<close>), and the properties hold for every order. What the
  process does to the outside is the list \<open>events\<close>. The answers of the outside are functions of \<open>ticks\<close>, so
  that they may differ at every question, and the other goroutines are a function \<open>others\<close> that changes the state
  wherever the modelled one waits; \<open>quiet\<close> says that none does, and the properties without that hypothesis hold
  under every interference. \<open>ProcWait\<close> interleaves everything at the locks.

  A hook is run by \<open>procwait.Run\<close>, which may block for ever: the environment says whether a command ends and
  is reaped (\<open>run_ends\<close>), and where it is not the method that ran it never returns (\<open>Crash NeverReaped\<close>). The
  properties that promise a return have the hypothesis \<open>commands_end\<close>.

  \<^bold>\<open>Fuel.\<close> Only calls that may not return have fuel: \<open>find_fuel\<close> (enough exactly if no cycle can be reached),
  \<open>start\<close> through dependencies (a rank of the dependencies more is enough; with a cycle of \<open>Requires\<close> none is),
  and the following of links (40, as in Linux). \<open>Diverge\<close> is never taken for a result. All other loops have a
  termination proof; the last reaper is a \<open>partial_function\<close> whose result is characterised completely.

  \<^bold>\<open>Parameters.\<close> The command line parser go-flags, the YAML text of a definition, the list of the processes of the
  system and their exit statuses, the users, the embedded binary libraries, and the command lines that are run.

  \<^bold>\<open>Not modelled.\<close> The terminal pager of the viewer, which is never called; the texts of log messages; file modes
  and owners; resource limits beyond the warnings, which the code does not set either; the rest of the C library
  that wraps fork; paths that are equal only after removing dots; scripts and container descriptions. A request
  that is read in more than one piece is modelled as the code treats it (it reads once).
\<close>

end
